theory Spec2Isabelle
  imports Main "HOL-Library.Sublist"
begin

section \<open>Data model (types/types.ts, types/errors.ts)\<close>

text \<open>
  The error codes that the modelled functions raise (\<open>DynamoErrorFactory\<close>).
  \<open>SEPARATOR_REQUIRED\<close> carries the side and the number of keys that the message
  prints, \<open>KEY_PART_REQUIRED\<close> and \<open>KEY_NOT_INCLUDED_IN_SK\<close> the key they name.
  \<open>TypeError\<close> stands for the JavaScript runtime error of reading a property of
  \<open>undefined\<close>; \<open>STORE_ERROR\<close> for a failure of the store client, which the code
  lets propagate.
\<close>

datatype ErrorCode =
    KEY_SCHEMA_REQUIRED
  | PK_REQUIRED
  | SEPARATOR_REQUIRED string nat
  | KEY_PART_REQUIRED string
  | SK_NOT_DEFINED_IN_SCHEMA
  | KEY_NOT_INCLUDED_IN_SK string
  | FIRST_KEY_NOT_INCLUDED_IN_SK
  | SK_EMPTY
  | INVALID_QUERY_TYPE string
  | TypeError
  | STORE_ERROR string

text \<open>
  \<open>KeyDef\<close>: one side of the key schema, \<open>{ name, keys, separator? }\<close>.
  \<open>KeySchema\<close>: \<open>{ pk, sk?, preserve? }\<close>. The constructor tests \<open>!keySchema.pk\<close>,
  so the partition side is optional in the model although the type requires it.
\<close>

record KeyDef =
  name :: string
  keys :: "string list"
  separator :: "string option"

record KeySchema =
  pk :: "KeyDef option"
  sk :: "KeyDef option"
  preserve :: "string list option"

text \<open>
  JavaScript truthiness of a value of type \<open>string | undefined\<close>: \<open>undefined\<close> and
  the empty string are falsy.
\<close>

definition truthy :: "string option \<Rightarrow> bool" where
  "truthy s = (case s of None \<Rightarrow> False | Some t \<Rightarrow> t \<noteq> [])"

section \<open>SchemaFormatter: construction\<close>

text \<open>
  The constructor of \<open>SchemaFormatter\<close>: it throws, or keeps the schema. The argument
  is optional because the first test is \<open>!this.keySchema\<close>.
\<close>

definition SchemaFormatter :: "KeySchema option \<Rightarrow> ErrorCode + KeySchema" where
  "SchemaFormatter keySchema =
     (case keySchema of
        None \<Rightarrow> Inl KEY_SCHEMA_REQUIRED
      | Some ks \<Rightarrow>
          (case pk ks of
             None \<Rightarrow> Inl PK_REQUIRED
           | Some p \<Rightarrow>
               if length (keys p) > 1 \<and> \<not> truthy (separator p)
               then Inl (SEPARATOR_REQUIRED ''pk'' (length (keys p)))
               else (case sk ks of
                       None \<Rightarrow> Inr ks
                     | Some s \<Rightarrow>
                         if length (keys s) > 1 \<and> \<not> truthy (separator s)
                         then Inl (SEPARATOR_REQUIRED ''sk'' (length (keys s)))
                         else Inr ks)))"

text \<open>
  A side needs a separator and has none: more than one key part, and a separator that
  is absent (or the empty string, which the test \<open>!separator\<close> does not tell apart).
\<close>

definition separatorMissing :: "KeyDef \<Rightarrow> bool" where
  "separatorMissing d = (length (keys d) > 1 \<and> \<not> truthy (separator d))"

section \<open>Values, strings and records\<close>

text \<open>
  The scalar values that occur as fields of a logical item and of an unmarshalled
  store record. Key records have type \<open>Record<string, string>\<close>; a number or a boolean
  can only occur as a payload value. A JavaScript number is modelled by an integer;
  the model renders it in full decimal digits, as JavaScript does for the integers that
  a double holds exactly below \<open>10^21\<close>.
\<close>

datatype DynamoScalar = Undefined | Null | Str string | Num int | Bool bool

text \<open>
  A JavaScript object read by property name is a partial map: the map of the object's
  own properties. Reading a name that the object does not have itself gives
  \<open>undefined\<close> in the model; a name that \<open>Object.prototype\<close> provides (such as
  \<open>constructor\<close>) is inherited in JavaScript, and such reads are outside the model.
  Where the code enumerates the keys of an object (\<open>Object.keys\<close>, \<open>for ... in\<close>) the
  object is an association list in enumeration order instead.
\<close>

type_synonym Item = "string \<rightharpoonup> DynamoScalar"

text \<open>Decimal rendering of a number, as \<open>String(n)\<close> and template literals print it.\<close>

definition digit :: "nat \<Rightarrow> char" where
  "digit d = ''0123456789'' ! d"

function natToString :: "nat \<Rightarrow> string" where
  "natToString n = (if n < 10 then [digit n] else natToString (n div 10) @ [digit (n mod 10)])"
  by pat_completeness auto
termination
  by (relation "measure id") auto

declare natToString.simps [simp del]

definition intToString :: "int \<Rightarrow> string" where
  "intToString i = (if i < 0 then CHR ''-'' # natToString (nat (- i)) else natToString (nat i))"

text \<open>\<open>String(raw)\<close> (and \<open>raw.toString()\<close> where that does not throw).\<close>

fun jsString :: "DynamoScalar \<Rightarrow> string" where
  "jsString (Str s) = s"
| "jsString (Num i) = intToString i"
| "jsString (Bool b) = (if b then ''true'' else ''false'')"
| "jsString Null = ''null''"
| "jsString Undefined = ''undefined''"

text \<open>\<open>Array.prototype.join\<close> on a list of strings.\<close>

fun jsJoin :: "string \<Rightarrow> string list \<Rightarrow> string" where
  "jsJoin sep [] = []"
| "jsJoin sep [x] = x"
| "jsJoin sep (x # y # r) = x @ sep @ jsJoin sep (y # r)"

text \<open>
  \<open>String.prototype.split\<close> with a non-empty string separator: the text is scanned from
  the left, \<open>cur\<close> is the segment read so far; at a position where the separator
  matches, the segment is closed and the scan goes on behind the separator. The code
  calls it with a truthy, that is non-empty, separator only.
\<close>

function jsSplit :: "string \<Rightarrow> string \<Rightarrow> string \<Rightarrow> string list" where
  "jsSplit sep cur [] = [cur]"
| "jsSplit sep cur (c # cs) =
     (if sep \<noteq> [] \<and> prefix sep (c # cs)
      then cur # jsSplit sep [] (drop (length sep) (c # cs))
      else jsSplit sep (cur @ [c]) cs)"
  by pat_completeness auto
termination
  by (relation "measure (\<lambda>(sep, cur, s). length s)") auto

text \<open>
  The assignment \<open>obj[key] = value\<close> to a plain object, with a scalar value. Under the
  name \<open>__proto__\<close> the assignment reaches the setter of \<open>Object.prototype\<close>, which
  stores no property (a scalar is ignored, \<open>null\<close> clears the prototype).
\<close>

definition setProperty :: "string \<Rightarrow> 'v \<Rightarrow> (string \<rightharpoonup> 'v) \<Rightarrow> (string \<rightharpoonup> 'v)" where
  "setProperty key v obj = (if key = ''__proto__'' then obj else obj(key \<mapsto> v))"

text \<open>\<open>xs[i]\<close>: \<open>undefined\<close> outside the array.\<close>

definition jsIndex :: "'a list \<Rightarrow> int \<Rightarrow> 'a option" where
  "jsIndex xs i = (if 0 \<le> i \<and> i < int (length xs) then Some (xs ! nat i) else None)"

section \<open>SchemaFormatter: key encoding\<close>

definition mustGet :: "Item \<Rightarrow> string \<Rightarrow> ErrorCode + DynamoScalar" where
  "mustGet obj prop =
     (case obj prop of
        None \<Rightarrow> Inl (KEY_PART_REQUIRED prop)
      | Some Undefined \<Rightarrow> Inl (KEY_PART_REQUIRED prop)
      | Some Null \<Rightarrow> Inl (KEY_PART_REQUIRED prop)
      | Some val \<Rightarrow> Inr val)"

text \<open>
  The \<open>def.keys.map(k => ...)\<close> of \<open>formatKey\<close>: the first key part that \<open>mustGet\<close>
  rejects throws.
\<close>

fun formatParts :: "Item \<Rightarrow> string list \<Rightarrow> ErrorCode + string list" where
  "formatParts item [] = Inr []"
| "formatParts item (k # ks) =
     (case mustGet item k of
        Inl e \<Rightarrow> Inl e
      | Inr raw \<Rightarrow>
          (case formatParts item ks of
             Inl e \<Rightarrow> Inl e
           | Inr ss \<Rightarrow> Inr (jsString raw # ss)))"

definition formatKey :: "Item \<Rightarrow> KeyDef \<Rightarrow> ErrorCode + string" where
  "formatKey item d =
     (let sep = (case separator d of None \<Rightarrow> ''#'' | Some s \<Rightarrow> s)
      in case formatParts item (keys d) of
           Inl e \<Rightarrow> Inl e
         | Inr ss \<Rightarrow> Inr (jsJoin sep ss))"

text \<open>
  \<open>formatPK\<close> and \<open>formatSK\<close>. Reading \<open>def.separator\<close> of a side that the schema does
  not have is a \<open>TypeError\<close>.
\<close>

definition formatPK :: "KeySchema \<Rightarrow> Item \<Rightarrow> ErrorCode + string" where
  "formatPK ks item = (case pk ks of None \<Rightarrow> Inl TypeError | Some d \<Rightarrow> formatKey item d)"

definition formatSK :: "KeySchema \<Rightarrow> Item \<Rightarrow> ErrorCode + string" where
  "formatSK ks item = (case sk ks of None \<Rightarrow> Inl TypeError | Some d \<Rightarrow> formatKey item d)"

section \<open>SchemaFormatter: key decoding\<close>

text \<open>
  The loop \<open>for (i = 0; i < parts.length; i++) key[parts[i]] = values[i]\<close> of
  \<open>formatRecordAsItemDto\<close>, walking both arrays in step; a part beyond the last
  segment is assigned \<open>undefined\<close>.
\<close>

fun assignParts :: "string list \<Rightarrow> string list \<Rightarrow> Item \<Rightarrow> Item" where
  "assignParts [] vs m = m"
| "assignParts (k # ks) vs m =
     assignParts ks (tl vs)
       (setProperty k (case vs of [] \<Rightarrow> Undefined | v # _ \<Rightarrow> Str v) m)"

text \<open>
  The block of \<open>formatRecordAsItemDto\<close> that rebuilds the logical fields of one side
  (the code has it twice, for pk and for sk): the physical attribute is read under the
  side's name and split when the side has a truthy separator; otherwise the whole
  string is stored under the physical attribute name. Every field is stored by an
  assignment.
\<close>

definition decodeSide :: "KeyDef \<Rightarrow> Item \<Rightarrow> ErrorCode + Item" where
  "decodeSide d record =
     (case record (name d) of
        None \<Rightarrow> Inl TypeError
      | Some Undefined \<Rightarrow> Inl TypeError
      | Some Null \<Rightarrow> Inl TypeError
      | Some v \<Rightarrow>
          (let inRecord = jsString v in
           case separator d of
             None \<Rightarrow> Inr (setProperty (name d) (Str inRecord) Map.empty)
           | Some sep \<Rightarrow>
               if sep \<noteq> []
               then Inr (assignParts (keys d) (jsSplit sep [] inRecord) Map.empty)
               else Inr (setProperty (name d) (Str inRecord) Map.empty)))"

definition formatRecordAsItemDto :: "KeySchema \<Rightarrow> Item \<Rightarrow> ErrorCode + Item" where
  "formatRecordAsItemDto ks record =
     (case pk ks of
        None \<Rightarrow> Inl TypeError
      | Some p \<Rightarrow>
          (case decodeSide p record of
             Inl e \<Rightarrow> Inl e
           | Inr pkFields \<Rightarrow>
               (case (case sk ks of None \<Rightarrow> Inr Map.empty | Some s \<Rightarrow> decodeSide s record) of
                  Inl e \<Rightarrow> Inl e
                | Inr skFields \<Rightarrow>
                    (let data = (\<lambda>key. if key = name p \<or> Some key = map_option name (sk ks)
                                          \<or> key = ''__proto__''
                                       then None else record key)
                     in Inr (pkFields ++ skFields ++ data)))))"

text \<open>
  The text of a key part: the string that a fully populated key record holds for it.
\<close>

definition partText :: "Item \<Rightarrow> string \<Rightarrow> string" where
  "partText item k = (case item k of Some (Str s) \<Rightarrow> s | _ \<Rightarrow> [])"

text \<open>
  The separator is not found inside a value that the separator follows: reading the
  value followed by the separator from the left, the separator matches at no position
  inside the value.
\<close>

fun notFoundBefore :: "string \<Rightarrow> string \<Rightarrow> bool" where
  "notFoundBefore sep [] = True"
| "notFoundBefore sep (c # cs) = (\<not> prefix sep ((c # cs) @ sep) \<and> notFoundBefore sep cs)"

text \<open>The separator does not occur in a value.\<close>

fun notFoundIn :: "string \<Rightarrow> string \<Rightarrow> bool" where
  "notFoundIn sep [] = True"
| "notFoundIn sep (c # cs) = (\<not> prefix sep (c # cs) \<and> notFoundIn sep cs)"

text \<open>
  The part values of a key can be told apart in the joined key: the separator is not
  found inside a value, read with the separator behind it, and for the last value read
  alone.
\<close>

fun separable :: "string \<Rightarrow> string list \<Rightarrow> bool" where
  "separable sep [] = True"
| "separable sep [v] = notFoundIn sep v"
| "separable sep (v # w # r) = (notFoundBefore sep v \<and> separable sep (w # r))"

text \<open>
  A key record can be decoded on a side: every part of the side is a string of the
  record, no part name or attribute name that the decoder assigns to is \<open>__proto__\<close>,
  and either the side has a non-empty separator and the part values are separable, or
  it has no (truthy) separator and its single part is named like the physical
  attribute.
\<close>

definition decodable :: "KeyDef \<Rightarrow> Item \<Rightarrow> bool" where
  "decodable d item =
     ((\<forall>k\<in>set (keys d). \<exists>s. item k = Some (Str s)) \<and> ''__proto__'' \<notin> set (keys d) \<and>
      ((\<exists>sep. separator d = Some sep \<and> sep \<noteq> [] \<and>
              separable sep (map (partText item) (keys d)))
       \<or> (\<not> truthy (separator d) \<and> keys d = [name d])))"

section \<open>SchemaFormatter: partial sort keys\<close>

text \<open>\<open>Array.prototype.indexOf\<close>: the first position of the element, or \<open>-1\<close>.\<close>

fun indexOf :: "string list \<Rightarrow> string \<Rightarrow> int" where
  "indexOf [] x = - 1"
| "indexOf (y # ys) x =
     (if y = x then 0 else (let i = indexOf ys x in if i < 0 then - 1 else i + 1))"

text \<open>
  The loop \<open>for (let i = 1; i < skKeysInSchema.length; i++)\<close> of
  \<open>assertPartialOrderSKIsCorrect\<close>, from index \<open>i\<close> on.
\<close>

function checkOrder :: "nat \<Rightarrow> string list \<Rightarrow> string list \<Rightarrow> ErrorCode + unit" where
  "checkOrder i orderedKeysInSK skKeysInSchema =
     (if i < length skKeysInSchema
      then (if length orderedKeysInSK = i then Inr ()
            else if jsIndex orderedKeysInSK (int i) \<noteq> Some (skKeysInSchema ! i)
            then Inl (KEY_NOT_INCLUDED_IN_SK (skKeysInSchema ! i))
            else checkOrder (i + 1) orderedKeysInSK skKeysInSchema)
      else Inr ())"
  by pat_completeness auto
termination
  by (relation "measure (\<lambda>(i, ord, schema). length schema - i)") auto

declare checkOrder.simps [simp del]

text \<open>
  \<open>assertPartialOrderSKIsCorrect\<close>. The argument is the supplied partial sort key as
  the list of its entries in the order of \<open>Object.keys\<close>. The comparator
  \<open>indexOf(a) - indexOf(b)\<close> orders the keys by their declared index, a key that the
  schema does not declare having index \<open>-1\<close>; \<open>Array.prototype.sort\<close> is stable, as
  \<open>sort_key\<close> is.
\<close>

definition assertPartialOrderSKIsCorrect ::
    "KeySchema \<Rightarrow> (string \<times> DynamoScalar) list \<Rightarrow> ErrorCode + unit" where
  "assertPartialOrderSKIsCorrect ks skRec =
     (let skKeysInSchema = (case sk ks of None \<Rightarrow> [] | Some d \<Rightarrow> keys d);
          keysInSK = map fst skRec
      in if length keysInSK = 0 then Inl SK_EMPTY
         else (let orderedKeysInSK = sort_key (indexOf skKeysInSchema) keysInSK
               in if jsIndex orderedKeysInSK 0 \<noteq> jsIndex skKeysInSchema 0
                  then Inl FIRST_KEY_NOT_INCLUDED_IN_SK
                  else checkOrder 1 orderedKeysInSK skKeysInSchema))"

text \<open>
  \<open>formatPartialOrderedSK\<close>: after the validation, the key definition that is
  formatted has \<open>keys: Object.keys(sk)\<close>, the keys of the supplied record in the
  record's own order.
\<close>

definition formatPartialOrderedSK ::
    "KeySchema \<Rightarrow> (string \<times> DynamoScalar) list \<Rightarrow> ErrorCode + string" where
  "formatPartialOrderedSK ks skRec =
     (case assertPartialOrderSKIsCorrect ks skRec of
        Inl e \<Rightarrow> Inl e
      | Inr _ \<Rightarrow>
          (case sk ks of
             None \<Rightarrow> Inl SK_NOT_DEFINED_IN_SCHEMA
           | Some skKeysInSchema \<Rightarrow>
               formatKey (map_of skRec)
                 \<lparr>name = name skKeysInSchema, keys = map fst skRec,
                  separator = separator skKeysInSchema\<rparr>))"

section \<open>The request (CommandInput) and the store\<close>

text \<open>
  A typed literal of the store. The payload of \<open>N\<close> is the decimal text of the number.
\<close>

datatype AttributeValue = S string | N string | BOOL bool | NULL bool

record CommandInput =
  TableName :: string
  IndexName :: "string option"
  ScanIndexForward :: "bool option"
  ProjectionExpression :: "string option"
  ExclusiveStartKey :: "(string \<rightharpoonup> AttributeValue) option"
  KeyConditionExpression :: "string option"
  ExpressionAttributeNames :: "(string \<rightharpoonup> string) option"
  Limit :: int
  ExpressionAttributeValues :: "(string \<rightharpoonup> AttributeValue) option"
  FilterExpression :: "string option"

text \<open>The part of a query or scan output that \<open>run\<close> reads.\<close>

record CommandOutput =
  Items :: "(string \<rightharpoonup> AttributeValue) list option"
  LastEvaluatedKey :: "(string \<rightharpoonup> AttributeValue) option"

datatype Direction = forward | backward

record paginationResult =
  items :: "Item list"
  lastEvaluatedKey :: "Item option"
  firstEvaluatedKey :: "Item option"
  count :: nat
  hasNext :: bool
  hasPrevious :: bool
  direction :: Direction

section \<open>SchemaFormatter: pagination result\<close>

definition formatEmptyPaginationResult :: "Direction \<Rightarrow> Item option \<Rightarrow> paginationResult" where
  "formatEmptyPaginationResult dir lastKey =
     \<lparr>items = [], lastEvaluatedKey = lastKey, firstEvaluatedKey = lastKey, count = 0,
      hasNext = (lastKey \<noteq> None), hasPrevious = (lastKey \<noteq> None), direction = dir\<rparr>"

text \<open>
  \<open>formatPaginationResult(items, limit, direction, lastEvaluatedKey,
  oldLastEvaluatedKey)\<close>; \<open>items.pop()\<close> removes the last item.
\<close>

definition formatPaginationResult ::
    "Item list \<Rightarrow> int \<Rightarrow> Direction \<Rightarrow> Item option \<Rightarrow> Item option \<Rightarrow> paginationResult" where
  "formatPaginationResult its limit dir lastKey oldLastKey =
     (if length its = 0 then formatEmptyPaginationResult dir lastKey
      else (let hasPrev = (oldLastKey \<noteq> None);
                hasNxt = (lastKey \<noteq> None \<or> int (length its) = limit);
                its' = (if int (length its) = limit then butlast its else its)
            in \<lparr>items = its',
                lastEvaluatedKey = jsIndex its' (int (length its') - 1),
                firstEvaluatedKey = jsIndex its' 0,
                count = length its',
                hasNext = hasNxt, hasPrevious = hasPrev, direction = dir\<rparr>))"

section \<open>SchemaFormatter: cursor keys\<close>

text \<open>
  \<open>formatItemKeysDtoAsRecord\<close>: the physical key attributes of a logical key record,
  each stored by an assignment. The attributes are strings, which \<open>marshall\<close> tags
  with \<open>S\<close>.
\<close>

definition formatItemKeysDtoAsRecord ::
    "KeySchema \<Rightarrow> Item \<Rightarrow> ErrorCode + (string \<rightharpoonup> AttributeValue)" where
  "formatItemKeysDtoAsRecord ks item =
     (case pk ks of
        None \<Rightarrow> Inl TypeError
      | Some p \<Rightarrow>
          (case formatKey item p of
             Inl e \<Rightarrow> Inl e
           | Inr pkValue \<Rightarrow>
               (case sk ks of
                  None \<Rightarrow> Inr (setProperty (name p) (S pkValue) Map.empty)
                | Some s \<Rightarrow>
                    (case formatKey item s of
                       Inl e \<Rightarrow> Inl e
                     | Inr skValue \<Rightarrow>
                         Inr (setProperty (name s) (S skValue)
                                (setProperty (name p) (S pkValue) Map.empty))))))"

section \<open>Chain (query/chain.ts)\<close>

text \<open>
  \<open>buildSharedCommandInput\<close> copies the table name and the limit, and every other
  field that is truthy: a string that is present and not empty, an object that is
  present. \<open>ScanIndexForward\<close> is not copied.
\<close>

definition keepTruthy :: "string option \<Rightarrow> string option" where
  "keepTruthy s = (if truthy s then s else None)"

definition buildSharedCommandInput :: "CommandInput \<Rightarrow> CommandInput" where
  "buildSharedCommandInput params =
     \<lparr>TableName = TableName params,
      IndexName = keepTruthy (IndexName params),
      ScanIndexForward = None,
      ProjectionExpression = keepTruthy (ProjectionExpression params),
      ExclusiveStartKey = ExclusiveStartKey params,
      KeyConditionExpression = keepTruthy (KeyConditionExpression params),
      ExpressionAttributeNames = ExpressionAttributeNames params,
      Limit = Limit params,
      ExpressionAttributeValues = ExpressionAttributeValues params,
      FilterExpression = keepTruthy (FilterExpression params)\<rparr>"

definition buildQueryCommandInput :: "CommandInput \<Rightarrow> CommandInput" where
  "buildQueryCommandInput params =
     (buildSharedCommandInput params)
       \<lparr>ScanIndexForward := Some (ScanIndexForward params = Some True)\<rparr>"

definition buildScanCommandInput :: "CommandInput \<Rightarrow> CommandInput" where
  "buildScanCommandInput params = buildSharedCommandInput params"

text \<open>
  The \<open>.map(item => formatRecordAsItemDto(item))\<close> of \<open>run\<close>: the first record that
  cannot be decoded throws.
\<close>

fun decodeItems :: "KeySchema \<Rightarrow> Item list \<Rightarrow> ErrorCode + Item list" where
  "decodeItems ks [] = Inr []"
| "decodeItems ks (r # rs) =
     (case formatRecordAsItemDto ks r of
        Inl e \<Rightarrow> Inl e
      | Inr it \<Rightarrow> (case decodeItems ks rs of Inl e \<Rightarrow> Inl e | Inr its \<Rightarrow> Inr (it # its)))"

text \<open>Decoding an optional key (\<open>LastEvaluatedKey\<close>, \<open>ExclusiveStartKey\<close>).\<close>

definition decodeCursor ::
    "((string \<rightharpoonup> AttributeValue) \<Rightarrow> Item) \<Rightarrow> KeySchema \<Rightarrow> (string \<rightharpoonup> AttributeValue) option
     \<Rightarrow> ErrorCode + Item option" where
  "decodeCursor unmarshall ks key =
     (case key of
        None \<Rightarrow> Inr None
      | Some k \<Rightarrow> (case formatRecordAsItemDto ks (unmarshall k) of
                    Inl e \<Rightarrow> Inl e
                  | Inr c \<Rightarrow> Inr (Some c)))"

text \<open>
  The part of \<open>run\<close> behind the store's answer: the items, the continuation key and
  the starting key are decoded, in this order, and the page is derived with the
  request's current \<open>Limit\<close>.
\<close>

definition derivePage ::
    "((string \<rightharpoonup> AttributeValue) \<Rightarrow> Item) \<Rightarrow> KeySchema \<Rightarrow> CommandInput \<Rightarrow> CommandOutput
     \<Rightarrow> ErrorCode + paginationResult" where
  "derivePage unmarshall ks params result =
     (case decodeItems ks (map unmarshall (case Items result of None \<Rightarrow> [] | Some rs \<Rightarrow> rs)) of
        Inl e \<Rightarrow> Inl e
      | Inr its \<Rightarrow>
          (case decodeCursor unmarshall ks (LastEvaluatedKey result) of
             Inl e \<Rightarrow> Inl e
           | Inr newLastEvaluatedKey \<Rightarrow>
               (case decodeCursor unmarshall ks (ExclusiveStartKey params) of
                  Inl e \<Rightarrow> Inl e
                | Inr oldLastEvaluatedKey \<Rightarrow>
                    Inr (formatPaginationResult its (Limit params)
                           (if ScanIndexForward params = Some True then forward else backward)
                           newLastEvaluatedKey oldLastEvaluatedKey))))"

text \<open>
  \<open>Chain.run\<close>. The store client is a parameter: it answers a command, named by its
  kind, or fails. \<open>unmarshall\<close> is the library function that turns the typed attributes
  of a store record into plain values. The result is the value returned or the error
  thrown, together with the request as \<open>run\<close> leaves it: \<open>this.params.Limit += 1\<close> is
  the first statement and is not undone.
\<close>

definition run ::
    "(string \<Rightarrow> CommandInput \<Rightarrow> ErrorCode + CommandOutput) \<Rightarrow> ((string \<rightharpoonup> AttributeValue) \<Rightarrow> Item)
     \<Rightarrow> KeySchema \<Rightarrow> string \<Rightarrow> CommandInput \<Rightarrow> (ErrorCode + paginationResult) \<times> CommandInput" where
  "run client unmarshall ks queryType params0 =
     (let params = params0\<lparr>Limit := Limit params0 + 1\<rparr>
      in if queryType = ''query''
         then (case client ''query'' (buildQueryCommandInput params) of
                 Inl e \<Rightarrow> (Inl e, params)
               | Inr result \<Rightarrow> (derivePage unmarshall ks params result, params))
         else if queryType = ''scan''
         then (case client ''scan'' (buildScanCommandInput params) of
                 Inl e \<Rightarrow> (Inl e, params)
               | Inr result \<Rightarrow> (derivePage unmarshall ks params result, params))
         else (Inl (INVALID_QUERY_TYPE queryType), params))"

text \<open>
  \<open>Chain.pivot\<close>. \<open>formatItemKeysWithIndexDtoAsRecord\<close> is not part of the formatter's
  source at hand; it is the parameter \<open>withIndex\<close>. When formatting the key throws, the
  request is as before.
\<close>

definition pivot ::
    "(Item \<Rightarrow> string \<Rightarrow> ErrorCode + (string \<rightharpoonup> AttributeValue)) \<Rightarrow> KeySchema \<Rightarrow> Item
     \<Rightarrow> CommandInput \<Rightarrow> ErrorCode + CommandInput" where
  "pivot withIndex ks pivotKey params =
     (case (if truthy (IndexName params)
            then withIndex pivotKey (the (IndexName params))
            else formatItemKeysDtoAsRecord ks pivotKey) of
        Inl e \<Rightarrow> Inl e
      | Inr startKey \<Rightarrow> Inr (params\<lparr>ExclusiveStartKey := Some startKey\<rparr>))"

text \<open>\<open>rawFilterParams\<close>: a filter expression with its name and value tables.\<close>

record rawFilterParams =
  rawFilterExpression :: string
  rawExpressionAttributeNames :: "string \<rightharpoonup> string"
  rawExpressionAttributeValues :: "string \<rightharpoonup> AttributeValue"

text \<open>
  \<open>Chain.filterRaw\<close>. An object spread \<open>{...a, ...b}\<close> is the map \<open>a ++ b\<close>, where
  the entries of \<open>b\<close> win. When the request has no name table, the code sets it to the
  empty object.
\<close>

definition filterRaw :: "rawFilterParams \<Rightarrow> CommandInput \<Rightarrow> CommandInput" where
  "filterRaw rawFilter params =
     params
       \<lparr>FilterExpression :=
          (if \<not> truthy (FilterExpression params)
           then Some (rawFilterExpression rawFilter)
           else Some (the (FilterExpression params)
                      @ '' AND ('' @ rawFilterExpression rawFilter @ '')'')),
        ExpressionAttributeNames :=
          (case ExpressionAttributeNames params of
             None \<Rightarrow> Some Map.empty
           | Some existing \<Rightarrow> Some (existing ++ rawExpressionAttributeNames rawFilter)),
        ExpressionAttributeValues :=
          (case ExpressionAttributeValues params of
             None \<Rightarrow> Some (rawExpressionAttributeValues rawFilter)
           | Some existing \<Rightarrow> Some (existing ++ rawExpressionAttributeValues rawFilter))\<rparr>"

text \<open>
  The filter object of \<open>Chain.filter\<close>: per field a condition, which is a bare value
  (equality) or an object from operators to values; a field or an operator can be
  present with the value \<open>undefined\<close>. Fields and operators are listed in the order in
  which \<open>for ... in\<close> enumerates them.
\<close>

datatype FilterValue = FStr string | FNum int | FBool bool | FNull

datatype FilterCondition =
    Direct FilterValue
  | Operators "(string \<times> FilterValue option) list"

text \<open>The typed literal of a filter value (the \<open>typeof\<close> cascade of \<open>filter\<close>).\<close>

fun literalOf :: "FilterValue \<Rightarrow> AttributeValue" where
  "literalOf (FNum n) = N (intToString n)"
| "literalOf (FBool b) = BOOL b"
| "literalOf FNull = NULL True"
| "literalOf (FStr s) = S s"

text \<open>\<open>key.replace(/\./g, '_')\<close> and \<open>operator.replace(/[^a-zA-Z0-9]/g, '')\<close>.\<close>

definition safeKeyOf :: "string \<Rightarrow> string" where
  "safeKeyOf key = map (\<lambda>c. if c = CHR ''.'' then CHR ''_'' else c) key"

definition isAlphaNumeric :: "char \<Rightarrow> bool" where
  "isAlphaNumeric c =
     (c \<in> set ''abcdefghijklmnopqrstuvwxyzABCDEFGHIJKLMNOPQRSTUVWXYZ0123456789'')"

definition sanitizeOperator :: "string \<Rightarrow> string" where
  "sanitizeOperator operator = filter isAlphaNumeric operator"

text \<open>
  The accumulators of \<open>filter\<close>: \<open>expressionParts\<close>, \<open>names\<close> and \<open>values\<close>.
\<close>

record filterParts =
  expressionParts :: "string list"
  names :: "string \<rightharpoonup> string"
  vals :: "string \<rightharpoonup> AttributeValue"

text \<open>The inner loop \<open>for (const op in condObj)\<close>.\<close>

fun addOperators ::
    "string \<Rightarrow> string \<Rightarrow> nat \<Rightarrow> (string \<times> FilterValue option) list \<Rightarrow> filterParts \<Rightarrow> filterParts" where
  "addOperators namePlaceholder safeKey counter [] acc = acc"
| "addOperators namePlaceholder safeKey counter ((operator, value) # rest) acc =
     (case value of
        None \<Rightarrow> addOperators namePlaceholder safeKey counter rest acc
      | Some v \<Rightarrow>
          (let valuePlaceholder =
                 '':val_'' @ safeKey @ ''_'' @ natToString counter @ ''_'' @ sanitizeOperator operator
           in addOperators namePlaceholder safeKey counter rest
                (acc\<lparr>expressionParts :=
                       expressionParts acc @ [namePlaceholder @ '' '' @ operator @ '' '' @ valuePlaceholder],
                     vals := (vals acc)(valuePlaceholder \<mapsto> literalOf v)\<rparr>)))"

text \<open>
  The outer loop \<open>for (const key in filterObject)\<close>; a field whose condition is
  \<open>undefined\<close> is skipped without counting.
\<close>

fun addConditions ::
    "(string \<times> FilterCondition option) list \<Rightarrow> nat \<Rightarrow> filterParts \<Rightarrow> filterParts" where
  "addConditions [] counter acc = acc"
| "addConditions ((key, condition) # rest) counter acc =
     (case condition of
        None \<Rightarrow> addConditions rest counter acc
      | Some cond \<Rightarrow>
          (let safeKey = safeKeyOf key;
               namePlaceholder = ''#'' @ safeKey @ ''_'' @ natToString counter;
               acc1 = acc\<lparr>names := (names acc)(namePlaceholder \<mapsto> key)\<rparr>
           in case cond of
                Operators condObj \<Rightarrow>
                  addConditions rest (counter + 1)
                    (addOperators namePlaceholder safeKey counter condObj acc1)
              | Direct v \<Rightarrow>
                  (let valuePlaceholder = '':val_'' @ safeKey @ ''_'' @ natToString counter
                   in addConditions rest (counter + 1)
                        (acc1\<lparr>expressionParts :=
                                expressionParts acc1 @ [namePlaceholder @ '' = '' @ valuePlaceholder],
                              vals := (vals acc1)(valuePlaceholder \<mapsto> literalOf v)\<rparr>))))"

text \<open>The raw filter that \<open>Chain.filter\<close> builds from a filter object.\<close>

definition filterParams :: "(string \<times> FilterCondition option) list \<Rightarrow> filterParts" where
  "filterParams filterObject =
     addConditions filterObject 0 \<lparr>expressionParts = [], names = Map.empty, vals = Map.empty\<rparr>"

definition filter_chain :: "(string \<times> FilterCondition option) list \<Rightarrow> CommandInput \<Rightarrow> CommandInput" where
  "filter_chain filterObject params =
     (let built = filterParams filterObject
      in if length (expressionParts built) > 0
         then filterRaw \<lparr>rawFilterExpression = jsJoin '' AND '' (expressionParts built),
                         rawExpressionAttributeNames = names built,
                         rawExpressionAttributeValues = vals built\<rparr> params
         else params)"

section \<open>Query: range conditions on the sort key\<close>

text \<open>
  The statements that \<open>compare\<close>, \<open>whereSKBeginsWith\<close> and \<open>whereSKBetween\<close> share
  behind the test of the sort side: both tables are created when absent and \<open>#sk\<close> is
  bound to the physical sort attribute. These statements run before the key is
  validated, so their effect stays when the validation throws.
\<close>

definition bindSK :: "KeyDef \<Rightarrow> CommandInput \<Rightarrow> CommandInput" where
  "bindSK d params =
     params
       \<lparr>ExpressionAttributeNames :=
          Some ((case ExpressionAttributeNames params of None \<Rightarrow> Map.empty | Some m \<Rightarrow> m)
                (''#sk'' \<mapsto> name d)),
        ExpressionAttributeValues :=
          Some (case ExpressionAttributeValues params of None \<Rightarrow> Map.empty | Some m \<Rightarrow> m)\<rparr>"

text \<open>\<open>this.params.KeyConditionExpression += clause\<close>.\<close>

definition appendKeyCondition :: "string \<Rightarrow> CommandInput \<Rightarrow> CommandInput" where
  "appendKeyCondition clause params =
     params\<lparr>KeyConditionExpression :=
              Some ((case KeyConditionExpression params of None \<Rightarrow> ''undefined'' | Some e \<Rightarrow> e)
                    @ clause)\<rparr>"

definition setValue :: "string \<Rightarrow> AttributeValue \<Rightarrow> CommandInput \<Rightarrow> CommandInput" where
  "setValue placeholder v params =
     params\<lparr>ExpressionAttributeValues :=
              Some ((case ExpressionAttributeValues params of None \<Rightarrow> Map.empty | Some m \<Rightarrow> m)
                    (placeholder \<mapsto> v))\<rparr>"

text \<open>
  \<open>Query.compare\<close>, behind \<open>whereSKequal\<close>, \<open>whereSKGreaterThan\<close>, \<open>whereSKLowerThan\<close>,
  \<open>whereSKGreaterThanOrEqual\<close> and \<open>whereSKLowerThanOrEqual\<close>. The result is the error
  thrown, if any, and the request as the call leaves it.
\<close>

definition compare ::
    "KeySchema \<Rightarrow> (string \<times> DynamoScalar) list \<Rightarrow> string \<Rightarrow> CommandInput
     \<Rightarrow> (ErrorCode + unit) \<times> CommandInput" where
  "compare ks skparams operator params =
     (case sk ks of
        None \<Rightarrow> (Inl SK_NOT_DEFINED_IN_SCHEMA, params)
      | Some d \<Rightarrow>
          (let params1 = bindSK d params
           in case formatPartialOrderedSK ks skparams of
                Inl e \<Rightarrow> (Inl e, params1)
              | Inr skValue \<Rightarrow>
                  (Inr (),
                   appendKeyCondition ('' AND #sk '' @ operator @ '' :sk'')
                     (setValue '':sk''
                        (case map_of skparams ''value'' of
                           Some (Num n) \<Rightarrow> N skValue
                         | _ \<Rightarrow> S skValue)
                        params1))))"

definition whereSKequal ::
    "KeySchema \<Rightarrow> (string \<times> DynamoScalar) list \<Rightarrow> CommandInput \<Rightarrow> (ErrorCode + unit) \<times> CommandInput" where
  "whereSKequal ks skRec params = compare ks skRec ''='' params"

definition whereSKGreaterThan ::
    "KeySchema \<Rightarrow> (string \<times> DynamoScalar) list \<Rightarrow> CommandInput \<Rightarrow> (ErrorCode + unit) \<times> CommandInput" where
  "whereSKGreaterThan ks skRec params = compare ks skRec ''>'' params"

definition whereSKLowerThan ::
    "KeySchema \<Rightarrow> (string \<times> DynamoScalar) list \<Rightarrow> CommandInput \<Rightarrow> (ErrorCode + unit) \<times> CommandInput" where
  "whereSKLowerThan ks skRec params = compare ks skRec ''<'' params"

definition whereSKGreaterThanOrEqual ::
    "KeySchema \<Rightarrow> (string \<times> DynamoScalar) list \<Rightarrow> CommandInput \<Rightarrow> (ErrorCode + unit) \<times> CommandInput" where
  "whereSKGreaterThanOrEqual ks skRec params = compare ks skRec ''>='' params"

definition whereSKLowerThanOrEqual ::
    "KeySchema \<Rightarrow> (string \<times> DynamoScalar) list \<Rightarrow> CommandInput \<Rightarrow> (ErrorCode + unit) \<times> CommandInput" where
  "whereSKLowerThanOrEqual ks skRec params = compare ks skRec ''<='' params"

definition whereSKBeginsWith ::
    "KeySchema \<Rightarrow> (string \<times> DynamoScalar) list \<Rightarrow> CommandInput \<Rightarrow> (ErrorCode + unit) \<times> CommandInput" where
  "whereSKBeginsWith ks skRec params =
     (case sk ks of
        None \<Rightarrow> (Inl SK_NOT_DEFINED_IN_SCHEMA, params)
      | Some d \<Rightarrow>
          (let params1 = bindSK d params
           in case formatPartialOrderedSK ks skRec of
                Inl e \<Rightarrow> (Inl e, params1)
              | Inr skValue \<Rightarrow>
                  (Inr (),
                   appendKeyCondition '' AND begins_with(#sk, :sk)''
                     (setValue '':sk'' (S skValue) params1))))"

definition whereSKBetween ::
    "KeySchema \<Rightarrow> (string \<times> DynamoScalar) list \<Rightarrow> (string \<times> DynamoScalar) list \<Rightarrow> CommandInput
     \<Rightarrow> (ErrorCode + unit) \<times> CommandInput" where
  "whereSKBetween ks sk1 sk2 params =
     (case sk ks of
        None \<Rightarrow> (Inl SK_NOT_DEFINED_IN_SCHEMA, params)
      | Some d \<Rightarrow>
          (let params1 = bindSK d params
           in case formatPartialOrderedSK ks sk1 of
                Inl e \<Rightarrow> (Inl e, params1)
              | Inr sk1Value \<Rightarrow>
                  (case formatPartialOrderedSK ks sk2 of
                     Inl e \<Rightarrow> (Inl e, params1)
                   | Inr sk2Value \<Rightarrow>
                       (Inr (),
                        appendKeyCondition '' AND #sk between :low and :high''
                          (setValue '':high'' (S sk2Value)
                             (setValue '':low'' (S sk1Value) params1))))))"

section \<open>Example schema, store and request\<close>

text \<open>
  The examples use the schema of the repository's pagination tests (a single partition
  part \<open>id\<close> stored under \<open>pk\<close>, no sort side), the schema of its partial-key tests
  (sort parts A to E joined by \<open>#\<close>), and a store that answers every command with a
  fixed output. \<open>unmarshallText\<close> is \<open>unmarshall\<close> on records whose attributes are
  strings, booleans or null; the examples hold no numbers.
\<close>

definition simpleSchema :: KeySchema where
  "simpleSchema = \<lparr>pk = Some \<lparr>name = ''pk'', keys = [''id''], separator = None\<rparr>,
                    sk = None, preserve = None\<rparr>"

definition schema2 :: KeySchema where
  "schema2 = \<lparr>pk = Some \<lparr>name = ''pk'', keys = [''tenantId'', ''userId''], separator = Some ''#''\<rparr>,
               sk = Some \<lparr>name = ''sk'', keys = [''A'', ''B'', ''C'', ''D'', ''E''],
                          separator = Some ''#''\<rparr>,
               preserve = Some [''userId'']\<rparr>"

definition unmarshallText :: "(string \<rightharpoonup> AttributeValue) \<Rightarrow> Item" where
  "unmarshallText r =
     (\<lambda>k. case r k of
            Some (S s) \<Rightarrow> Some (Str s)
          | Some (BOOL b) \<Rightarrow> Some (Bool b)
          | Some (NULL b) \<Rightarrow> Some Null
          | _ \<Rightarrow> None)"

definition fixedStore :: "CommandOutput \<Rightarrow> string \<Rightarrow> CommandInput \<Rightarrow> ErrorCode + CommandOutput" where
  "fixedStore out kind cmd = Inr out"

definition baseParams :: CommandInput where
  "baseParams =
     \<lparr>TableName = ''TestTable'', IndexName = None, ScanIndexForward = Some True,
      ProjectionExpression = None, ExclusiveStartKey = None,
      KeyConditionExpression = Some ''#pk = :pk'',
      ExpressionAttributeNames = Some [''#pk'' \<mapsto> ''pk''],
      Limit = 10,
      ExpressionAttributeValues = Some ['':pk'' \<mapsto> S ''tenant1''],
      FilterExpression = None\<rparr>"

text \<open>The request that \<open>Table.scan({ limit: 100 })\<close> builds: a table name and a limit.\<close>

definition scanParams :: CommandInput where
  "scanParams =
     \<lparr>TableName = ''TestTable'', IndexName = None, ScanIndexForward = None,
      ProjectionExpression = None, ExclusiveStartKey = None, KeyConditionExpression = None,
      ExpressionAttributeNames = None, Limit = 100, ExpressionAttributeValues = None,
      FilterExpression = None\<rparr>"

section \<open>Verified properties\<close>

subsection \<open>C8: schema validation at construction time\<close>

lemma SchemaFormatter_result:
  "SchemaFormatter (Some ks) = Inr r \<Longrightarrow> r = ks"
  by (auto simp: SchemaFormatter_def split: option.splits if_splits)

text \<open>
  C8. Constructing a SchemaFormatter throws for a missing schema (KEY_SCHEMA_REQUIRED),
  for a schema without partition-key definition (PK_REQUIRED) and for a schema one of
  whose sides has more than one key part and no separator (SEPARATOR_REQUIRED, the
  partition side being tested first); every other schema, that is every schema each of
  whose sides has at most one part or a separator, is accepted and kept unchanged.
\<close>

theorem C8_constructor_validation:
  "(keySchema = None \<longrightarrow> SchemaFormatter keySchema = Inl KEY_SCHEMA_REQUIRED)
   \<and> (\<forall>ks. keySchema = Some ks \<and> pk ks = None \<longrightarrow>
          SchemaFormatter keySchema = Inl PK_REQUIRED)
   \<and> (\<forall>ks p. keySchema = Some ks \<and> pk ks = Some p \<and> separatorMissing p \<longrightarrow>
          SchemaFormatter keySchema = Inl (SEPARATOR_REQUIRED ''pk'' (length (keys p))))
   \<and> (\<forall>ks p s. keySchema = Some ks \<and> pk ks = Some p \<and> \<not> separatorMissing p
                \<and> sk ks = Some s \<and> separatorMissing s \<longrightarrow>
          SchemaFormatter keySchema = Inl (SEPARATOR_REQUIRED ''sk'' (length (keys s))))
   \<and> (\<forall>ks p. keySchema = Some ks \<and> pk ks = Some p \<and> \<not> separatorMissing p
              \<and> (\<forall>s. sk ks = Some s \<longrightarrow> \<not> separatorMissing s) \<longrightarrow>
          SchemaFormatter keySchema = Inr ks)"
  by (auto simp: SchemaFormatter_def separatorMissing_def split: option.splits)

theorem C8_constructor_validation_witness:
  "SchemaFormatter (Some \<lparr>pk = Some \<lparr>name = ''pk'', keys = [''tenantId''], separator = None\<rparr>,
       sk = Some \<lparr>name = ''sk'', keys = [''sort'', ''timestamp''], separator = None\<rparr>,
       preserve = None\<rparr>)
     = Inl (SEPARATOR_REQUIRED ''sk'' 2)
   \<and> SchemaFormatter (Some \<lparr>pk = Some \<lparr>name = ''pk'', keys = [''tenantId'', ''userId''],
                                      separator = Some ''#''\<rparr>,
       sk = None, preserve = None\<rparr>)
     = Inr \<lparr>pk = Some \<lparr>name = ''pk'', keys = [''tenantId'', ''userId''], separator = Some ''#''\<rparr>,
       sk = None, preserve = None\<rparr>"
proof
  let ?p = "\<lparr>name = ''pk'', keys = [''tenantId''], separator = None\<rparr>"
  let ?s = "\<lparr>name = ''sk'', keys = [''sort'', ''timestamp''], separator = None\<rparr>"
  let ?ks = "\<lparr>pk = Some ?p, sk = Some ?s, preserve = None\<rparr>"
  show "SchemaFormatter (Some ?ks) = Inl (SEPARATOR_REQUIRED ''sk'' 2)"
    using C8_constructor_validation [of "Some ?ks"]
    by (simp add: separatorMissing_def truthy_def)
next
  let ?p = "\<lparr>name = ''pk'', keys = [''tenantId'', ''userId''], separator = Some ''#''\<rparr>"
  let ?ks = "\<lparr>pk = Some ?p, sk = None, preserve = None\<rparr>"
  show "SchemaFormatter (Some ?ks) = Inr ?ks"
    using C8_constructor_validation [of "Some ?ks"]
    by (simp add: separatorMissing_def truthy_def)
qed

subsection \<open>C2: decoding an encoded key\<close>

lemma prefix_within:
  "length sep \<le> length a \<Longrightarrow> prefix sep (a @ r) = prefix sep a"
  by (auto simp: prefix_append prefix_order.antisym prefix_length_le)

lemma jsSplit_value_step:
  "sep \<noteq> [] \<Longrightarrow> notFoundBefore sep v \<Longrightarrow>
   jsSplit sep cur (v @ sep @ r) = (cur @ v) # jsSplit sep [] r"
proof (induction v arbitrary: cur)
  case Nil
  then obtain c cs where sep: "sep = c # cs" by (cases sep) auto
  have "jsSplit sep cur (c # (cs @ r)) = cur # jsSplit sep [] (drop (length sep) (c # (cs @ r)))"
    using sep by (simp del: drop_Suc_Cons)
  then show ?case using sep by simp
next
  case (Cons x xs)
  have "prefix sep (((x # xs) @ sep) @ r) = prefix sep ((x # xs) @ sep)"
    by (rule prefix_within) simp
  with Cons.prems have "\<not> prefix sep (x # xs @ sep @ r)" by simp
  then show ?case using Cons by simp
qed

lemma jsSplit_last_value:
  "notFoundIn sep v \<Longrightarrow> jsSplit sep cur v = [cur @ v]"
  by (induction v arbitrary: cur) simp_all

lemma jsSplit_jsJoin:
  "sep \<noteq> [] \<Longrightarrow> texts \<noteq> [] \<Longrightarrow> separable sep texts \<Longrightarrow> jsSplit sep [] (jsJoin sep texts) = texts"
proof (induction sep texts rule: jsJoin.induct)
  case (1 sep)
  then show ?case by simp
next
  case (2 sep x)
  then show ?case by (simp add: jsSplit_last_value)
next
  case (3 sep x y r)
  then show ?case by (simp add: jsSplit_value_step)
qed

text \<open>
  Separable values are the only ones that splitting the joined key gives back.
\<close>

lemma jsSplit_not_Nil:
  "jsSplit sep cur s \<noteq> []"
  by (induction sep cur s rule: jsSplit.induct) simp_all

lemma jsSplit_single_only_if:
  "sep \<noteq> [] \<Longrightarrow> jsSplit sep cur v = [x] \<Longrightarrow> notFoundIn sep v"
proof (induction v arbitrary: cur)
  case Nil
  then show ?case by simp
next
  case (Cons c cs)
  show ?case
  proof (cases "prefix sep (c # cs)")
    case True
    with Cons.prems have "jsSplit sep [] (drop (length sep) (c # cs)) = []" by simp
    then show ?thesis by (simp add: jsSplit_not_Nil)
  next
    case False
    with Cons.prems have "jsSplit sep (cur @ [c]) cs = [x]" by simp
    with Cons.IH Cons.prems(1) False show ?thesis by simp
  qed
qed

lemma jsSplit_value_step_only_if:
  "sep \<noteq> [] \<Longrightarrow> jsSplit sep cur (v @ sep @ r) = (cur @ v) # rest \<Longrightarrow>
   notFoundBefore sep v \<and> rest = jsSplit sep [] r"
proof (induction v arbitrary: cur)
  case Nil
  then obtain c cs where sep: "sep = c # cs" by (cases sep) auto
  have "jsSplit sep cur (c # (cs @ r)) = cur # jsSplit sep [] (drop (length sep) (c # (cs @ r)))"
    using sep by (simp del: drop_Suc_Cons)
  with Nil.prems(2) sep show ?case by simp
next
  case (Cons x xs)
  have within: "prefix sep (((x # xs) @ sep) @ r) = prefix sep ((x # xs) @ sep)"
    by (rule prefix_within) simp
  have no: "\<not> prefix sep (x # xs @ sep @ r)"
  proof
    assume "prefix sep (x # xs @ sep @ r)"
    with Cons.prems have "cur = cur @ x # xs" by simp
    then show False by simp
  qed
  with Cons.prems have "jsSplit sep (cur @ [x]) (xs @ sep @ r) = ((cur @ [x]) @ xs) # rest" by simp
  from Cons.IH [OF Cons.prems(1) this] no within show ?case by simp
qed

lemma separable_iff_split:
  "sep \<noteq> [] \<Longrightarrow> texts \<noteq> [] \<Longrightarrow>
   separable sep texts = (jsSplit sep [] (jsJoin sep texts) = texts)"
proof
  assume "sep \<noteq> []" "texts \<noteq> []" "separable sep texts"
  then show "jsSplit sep [] (jsJoin sep texts) = texts" by (rule jsSplit_jsJoin)
next
  assume "sep \<noteq> []" "texts \<noteq> []" "jsSplit sep [] (jsJoin sep texts) = texts"
  then show "separable sep texts"
  proof (induction sep texts rule: jsJoin.induct)
    case (1 sep)
    then show ?case by simp
  next
    case (2 sep x)
    then show ?case using jsSplit_single_only_if [of sep "[]" x x] by simp
  next
    case (3 sep x y r)
    from "3.prems" have "jsSplit sep [] (x @ sep @ jsJoin sep (y # r)) = ([] @ x) # y # r" by simp
    from jsSplit_value_step_only_if [OF "3.prems"(1) this]
    have "notFoundBefore sep x" "jsSplit sep [] (jsJoin sep (y # r)) = y # r" by simp_all
    with "3.IH" "3.prems"(1) show ?case by simp
  qed
qed

text \<open>
  A separator whose first character occurs in no value is not found in a value.
\<close>

lemma first_char_notFound:
  "sep \<noteq> [] \<Longrightarrow> hd sep \<notin> set v \<Longrightarrow> notFoundBefore sep v \<and> notFoundIn sep v"
  by (induction v) (auto simp: prefix_Cons neq_Nil_conv)

lemma first_char_separable:
  "sep \<noteq> [] \<Longrightarrow> \<forall>v\<in>set texts. hd sep \<notin> set v \<Longrightarrow> separable sep texts"
  by (induction sep texts rule: separable.induct) (simp_all add: first_char_notFound)

lemma assignParts_map:
  "''__proto__'' \<notin> set ks \<Longrightarrow>
   assignParts ks (map f ks) m = m ++ (\<lambda>k. if k \<in> set ks then Some (Str (f k)) else None)"
proof (induction ks arbitrary: m)
  case Nil
  then show ?case by (simp add: map_add_def)
next
  case (Cons k ks)
  then have "k \<noteq> ''__proto__''" "''__proto__'' \<notin> set ks" by auto
  with Cons.IH show ?case
    by (simp add: setProperty_def) (rule ext, simp add: map_add_def)
qed

lemma formatParts_strings:
  "\<forall>k\<in>set ks. item k = Some (Str (f k)) \<Longrightarrow> formatParts item ks = Inr (map f ks)"
  by (induction ks) (simp_all add: mustGet_def)

lemma side_roundtrip:
  assumes dec: "decodable d item"
  shows "\<exists>e. formatKey item d = Inr e \<and>
             (\<forall>r. r (name d) = Some (Str e) \<longrightarrow> decodeSide d r = Inr (item |` set (keys d)))"
proof -
  let ?f = "partText item"
  from dec have strings: "\<forall>k\<in>set (keys d). \<exists>s. item k = Some (Str s)"
    and proto: "''__proto__'' \<notin> set (keys d)"
    and shape: "(\<exists>sep. separator d = Some sep \<and> sep \<noteq> [] \<and> separable sep (map ?f (keys d)))
       \<or> (\<not> truthy (separator d) \<and> keys d = [name d])"
    by (simp_all add: decodable_def)
  have texts: "\<forall>k\<in>set (keys d). item k = Some (Str (?f k))"
    using strings by (auto simp: partText_def)
  have parts: "formatParts item (keys d) = Inr (map ?f (keys d))"
    by (rule formatParts_strings [OF texts])
  have restr: "(\<lambda>k. if k \<in> set (keys d) then Some (Str (?f k)) else None) = item |` set (keys d)"
    using texts by (auto simp: restrict_map_def fun_eq_iff)
  from shape show ?thesis
  proof
    assume "\<exists>sep. separator d = Some sep \<and> sep \<noteq> [] \<and> separable sep (map ?f (keys d))"
    then obtain sep where sep: "separator d = Some sep" "sep \<noteq> []"
      and clean: "separable sep (map ?f (keys d))" by blast
    let ?e = "jsJoin sep (map ?f (keys d))"
    have enc: "formatKey item d = Inr ?e"
      by (simp add: formatKey_def sep parts)
    have assign: "assignParts (keys d) (jsSplit sep [] ?e) Map.empty = item |` set (keys d)"
    proof (cases "keys d = []")
      case True
      then show ?thesis by simp
    next
      case False
      then have "jsSplit sep [] ?e = map ?f (keys d)"
        using sep(2) clean by (intro jsSplit_jsJoin) auto
      then show ?thesis by (simp add: assignParts_map [OF proto] restr)
    qed
    have "decodeSide d r = Inr (item |` set (keys d))" if "r (name d) = Some (Str ?e)" for r
      using that sep assign by (simp add: decodeSide_def)
    with enc show ?thesis by blast
  next
    assume a: "\<not> truthy (separator d) \<and> keys d = [name d]"
    let ?e = "?f (name d)"
    have np: "name d \<noteq> ''__proto__''" using a proto by auto
    have enc: "formatKey item d = Inr ?e"
      using a parts by (simp add: formatKey_def split: option.splits)
    have single: "setProperty (name d) (Str ?e) Map.empty = item |` set (keys d)"
    proof (rule ext)
      fix k
      from restr have "(if k \<in> set (keys d) then Some (Str (?f k)) else None) = (item |` set (keys d)) k"
        by (rule fun_cong)
      with a np show "setProperty (name d) (Str ?e) Map.empty k = (item |` set (keys d)) k"
        by (simp add: setProperty_def split: if_splits)
    qed
    have "decodeSide d r = Inr (item |` set (keys d))" if "r (name d) = Some (Str ?e)" for r
      using that a single by (auto simp: decodeSide_def truthy_def split: option.splits)
    with enc show ?thesis by blast
  qed
qed




text \<open>
  The cursor of a schema with both sides: \<open>pivot\<close> encodes it with
  \<open>formatItemKeysDtoAsRecord\<close>, \<open>run\<close> decodes it with \<open>formatRecordAsItemDto\<close> after
  \<open>unmarshall\<close>, which maps the two string attributes to their strings.
\<close>

lemma cursor_roundtrip:
  assumes p: "pk ks = Some p" and s: "sk ks = Some s" and names: "name p \<noteq> name s"
    and np: "name p \<noteq> ''__proto__''" and ns: "name s \<noteq> ''__proto__''"
    and populated: "dom item = set (keys p) \<union> set (keys s)"
    and dp: "decodable p item" and dsk: "decodable s item"
    and unm: "\<And>a b. unmarshall [name p \<mapsto> S a, name s \<mapsto> S b] = [name p \<mapsto> Str a, name s \<mapsto> Str b]"
  shows "\<exists>r. formatItemKeysDtoAsRecord ks item = Inr r
             \<and> formatRecordAsItemDto ks (unmarshall r) = Inr item"
proof -
  from side_roundtrip [OF dp] obtain e1 where e1: "formatKey item p = Inr e1"
    and d1: "\<And>r. r (name p) = Some (Str e1) \<Longrightarrow> decodeSide p r = Inr (item |` set (keys p))"
    by blast
  from side_roundtrip [OF dsk] obtain e2 where e2: "formatKey item s = Inr e2"
    and d2: "\<And>r. r (name s) = Some (Str e2) \<Longrightarrow> decodeSide s r = Inr (item |` set (keys s))"
    by blast
  let ?r = "[name p \<mapsto> S e1, name s \<mapsto> S e2]"
  let ?u = "[name p \<mapsto> Str e1, name s \<mapsto> Str e2]"
  have enc: "formatItemKeysDtoAsRecord ks item = Inr ?r"
    by (simp add: formatItemKeysDtoAsRecord_def p s e1 e2 setProperty_def np ns)
  have u: "unmarshall ?r = ?u" by (rule unm)
  have "?u (name p) = Some (Str e1)" using names by simp
  then have dec1: "decodeSide p ?u = Inr (item |` set (keys p))" by (rule d1)
  have "?u (name s) = Some (Str e2)" by simp
  then have dec2: "decodeSide s ?u = Inr (item |` set (keys s))" by (rule d2)
  have data: "(\<lambda>key. if key = name p \<or> key = name s \<or> key = ''__proto__'' then None else ?u key)
              = Map.empty"
    by (rule ext) simp
  have whole: "item |` set (keys p) ++ item |` set (keys s) ++ Map.empty = item"
  proof (rule ext)
    fix k
    show "(item |` set (keys p) ++ item |` set (keys s) ++ Map.empty) k = item k"
      using populated by (cases "item k") (auto simp: map_add_def restrict_map_def dom_def)
  qed
  have "formatRecordAsItemDto ks ?u = Inr item"
    by (simp add: formatRecordAsItemDto_def p s dec1 dec2 data whole del: map_add_empty)
  with enc u show ?thesis by simp
qed

subsection \<open>C1: the page derived from a non-empty answer\<close>

lemma formatPaginationResult_nonempty:
  assumes "its \<noteq> []"
  shows "formatPaginationResult its limit dir newCursor oldCursor =
     \<lparr>items = (if int (length its) = limit then butlast its else its),
      lastEvaluatedKey = jsIndex (if int (length its) = limit then butlast its else its)
          (int (length (if int (length its) = limit then butlast its else its)) - 1),
      firstEvaluatedKey = jsIndex (if int (length its) = limit then butlast its else its) 0,
      count = length (if int (length its) = limit then butlast its else its),
      hasNext = (newCursor \<noteq> None \<or> int (length its) = limit),
      hasPrevious = (oldCursor \<noteq> None), direction = dir\<rparr>"
  using assms by (simp add: formatPaginationResult_def Let_def)

lemma jsIndex_first: "xs \<noteq> [] \<Longrightarrow> jsIndex xs 0 = Some (hd xs)"
  by (cases xs) (simp_all add: jsIndex_def)

lemma jsIndex_last: "xs \<noteq> [] \<Longrightarrow> jsIndex xs (int (length xs) - 1) = Some (last xs)"
proof -
  assume ne: "xs \<noteq> []"
  then have "nat (int (length xs) - 1) = length xs - 1" by simp
  with ne show ?thesis
    by (simp add: jsIndex_def last_conv_nth)
qed

lemma run_answer:
  assumes "queryType = ''query'' \<or> queryType = ''scan''"
    and "client queryType
           (if queryType = ''query''
            then buildQueryCommandInput (params\<lparr>Limit := Limit params + 1\<rparr>)
            else buildScanCommandInput (params\<lparr>Limit := Limit params + 1\<rparr>)) = Inr result"
  shows "run client unmarshall ks queryType params =
     (derivePage unmarshall ks (params\<lparr>Limit := Limit params + 1\<rparr>) result,
      params\<lparr>Limit := Limit params + 1\<rparr>)"
  using assms by (auto simp: run_def Let_def)

text \<open>
  C1. A request with caller limit \<open>n\<close> is issued with limit \<open>n + 1\<close>. When the store
  answers and the decoded item list is not empty, \<open>run\<close> returns a page with:
  hasPrevious true iff the starting cursor is defined; hasNext true iff the continuation
  cursor is defined or the list has \<open>n + 1\<close> items; the last item dropped exactly when
  the list has \<open>n + 1\<close> items, before count and items are computed; firstEvaluatedKey
  and lastEvaluatedKey the elements \<open>items[0]\<close> and \<open>items[items.length - 1]\<close> of the
  remaining list, that is its first item (the first fetched item) and its last item
  whenever an item remains. No item remains only when \<open>n = 0\<close> and one item was
  fetched; both keys are undefined then.
\<close>

theorem C1_pagination_result:
  assumes kind: "queryType = ''query'' \<or> queryType = ''scan''"
    and limit: "Limit params = n"
    and answer: "client queryType
           (if queryType = ''query''
            then buildQueryCommandInput (params\<lparr>Limit := n + 1\<rparr>)
            else buildScanCommandInput (params\<lparr>Limit := n + 1\<rparr>)) = Inr result"
    and decoded: "decodeItems ks (map unmarshall (case Items result of None \<Rightarrow> [] | Some rs \<Rightarrow> rs))
                  = Inr its"
    and nonempty: "its \<noteq> []"
    and newC: "decodeCursor unmarshall ks (LastEvaluatedKey result) = Inr newCursor"
    and oldC: "decodeCursor unmarshall ks (ExclusiveStartKey params) = Inr oldCursor"
  shows "\<exists>page. fst (run client unmarshall ks queryType params) = Inr page
      \<and> hasPrevious page = (oldCursor \<noteq> None)
      \<and> hasNext page = (newCursor \<noteq> None \<or> int (length its) = n + 1)
      \<and> items page = (if int (length its) = n + 1 then butlast its else its)
      \<and> count page = length (items page)
      \<and> firstEvaluatedKey page = jsIndex (items page) 0
      \<and> lastEvaluatedKey page = jsIndex (items page) (int (length (items page)) - 1)
      \<and> (items page = []) = (n = 0 \<and> length its = 1)
      \<and> (items page \<noteq> [] \<longrightarrow>
            firstEvaluatedKey page = Some (hd its) \<and> lastEvaluatedKey page = Some (last (items page)))"
proof -
  let ?p = "params\<lparr>Limit := n + 1\<rparr>"
  let ?its = "if int (length its) = n + 1 then butlast its else its"
  let ?page = "formatPaginationResult its (n + 1)
                 (if ScanIndexForward params = Some True then forward else backward)
                 newCursor oldCursor"
  have "client queryType
           (if queryType = ''query''
            then buildQueryCommandInput (params\<lparr>Limit := Limit params + 1\<rparr>)
            else buildScanCommandInput (params\<lparr>Limit := Limit params + 1\<rparr>)) = Inr result"
    using answer unfolding limit .
  from run_answer [of queryType client params result, OF kind this]
  have "run client unmarshall ks queryType params = (derivePage unmarshall ks ?p result, ?p)"
    unfolding limit .
  moreover have "derivePage unmarshall ks ?p result = Inr ?page"
    using decoded newC oldC by (simp add: derivePage_def)
  ultimately have r: "fst (run client unmarshall ks queryType params) = Inr ?page" by simp
  note shape = formatPaginationResult_nonempty [OF nonempty, of "n + 1" _ newCursor oldCursor]
  have e: "(?its = []) = (n = 0 \<and> length its = 1)"
  proof (cases "int (length its) = n + 1")
    case True
    then have "(butlast its = []) = (length its = 1)"
      using nonempty by (cases its rule: rev_cases) auto
    with True show ?thesis by auto
  next
    case False
    with nonempty show ?thesis by auto
  qed
  have hdl: "?its \<noteq> [] \<Longrightarrow> hd ?its = hd its"
    using nonempty by (cases its) (auto split: if_splits)
  have "hasPrevious ?page = (oldCursor \<noteq> None)"
    and "hasNext ?page = (newCursor \<noteq> None \<or> int (length its) = n + 1)"
    and "items ?page = ?its"
    and "count ?page = length (items ?page)"
    and "firstEvaluatedKey ?page = jsIndex (items ?page) 0"
    and "lastEvaluatedKey ?page = jsIndex (items ?page) (int (length (items ?page)) - 1)"
    by (simp_all add: shape)
  moreover have "(items ?page = []) = (n = 0 \<and> length its = 1)"
    using e by (simp add: shape)
  moreover have "items ?page \<noteq> [] \<longrightarrow>
       firstEvaluatedKey ?page = Some (hd its) \<and> lastEvaluatedKey ?page = Some (last (items ?page))"
    using hdl jsIndex_first [of ?its] jsIndex_last [of ?its] by (simp add: shape)
  ultimately show ?thesis using r by blast
qed


theorem C1_pagination_result_witness:
  "(case fst (run (fixedStore \<lparr>Items = Some [[''pk'' \<mapsto> S ''1''], [''pk'' \<mapsto> S ''2''], [''pk'' \<mapsto> S ''3'']],
                               LastEvaluatedKey = None\<rparr>)
                unmarshallText simpleSchema ''query'' (baseParams\<lparr>Limit := 2\<rparr>)) of
      Inl e \<Rightarrow> False
    | Inr page \<Rightarrow> hasNext page \<and> \<not> hasPrevious page \<and> count page = 2 \<and> length (items page) = 2
         \<and> firstEvaluatedKey page = jsIndex (items page) 0
         \<and> map_option (\<lambda>it. it ''pk'') (firstEvaluatedKey page) = Some (Some (Str ''1''))
         \<and> map_option (\<lambda>it. it ''pk'') (lastEvaluatedKey page) = Some (Some (Str ''2'')))"
proof -
  let ?out = "\<lparr>Items = Some [[''pk'' \<mapsto> S ''1''], [''pk'' \<mapsto> S ''2''], [''pk'' \<mapsto> S ''3'']],
               LastEvaluatedKey = None\<rparr>"
  let ?params = "baseParams\<lparr>Limit := 2\<rparr>"
  obtain i1 i2 i3 where dec:
      "decodeItems simpleSchema (map unmarshallText (case Items ?out of None \<Rightarrow> [] | Some rs \<Rightarrow> rs))
       = Inr [i1, i2, i3]"
    and v: "i1 ''pk'' = Some (Str ''1'')" "i2 ''pk'' = Some (Str ''2'')"
    by (simp add: formatRecordAsItemDto_def decodeSide_def setProperty_def simpleSchema_def
        unmarshallText_def map_add_def)
  have kind: "''query'' = ''query'' \<or> ''query'' = ''scan''" by simp
  have lim: "Limit ?params = 2" by simp
  have ans: "fixedStore ?out ''query''
           (if ''query'' = ''query''
            then buildQueryCommandInput (?params\<lparr>Limit := 2 + 1\<rparr>)
            else buildScanCommandInput (?params\<lparr>Limit := 2 + 1\<rparr>)) = Inr ?out"
    by (simp add: fixedStore_def)
  have ne: "[i1, i2, i3] \<noteq> []" by simp
  have newC: "decodeCursor unmarshallText simpleSchema (LastEvaluatedKey ?out) = Inr None"
    by (simp add: decodeCursor_def)
  have oldC: "decodeCursor unmarshallText simpleSchema (ExclusiveStartKey ?params) = Inr None"
    by (simp add: decodeCursor_def baseParams_def)
  from C1_pagination_result [where queryType = "''query''" and params = ?params and n = 2
        and client = "fixedStore ?out" and result = ?out and unmarshall = unmarshallText
        and ks = simpleSchema, OF kind lim ans dec ne newC oldC]
  obtain page where "fst (run (fixedStore ?out) unmarshallText simpleSchema ''query'' ?params) = Inr page"
    and "hasPrevious page = (None \<noteq> (None :: Item option))"
    and "hasNext page = ((None :: Item option) \<noteq> None \<or> int (length [i1, i2, i3]) = 2 + 1)"
    and "items page = (if int (length [i1, i2, i3]) = 2 + 1 then butlast [i1, i2, i3] else [i1, i2, i3])"
    and "count page = length (items page)"
    and "firstEvaluatedKey page = jsIndex (items page) 0"
    and "lastEvaluatedKey page = jsIndex (items page) (int (length (items page)) - 1)"
    by blast
  then show ?thesis using v by (simp add: jsIndex_def)
qed

text \<open>
  The page of a request with caller limit 0 whose answer holds one item: the item is the
  over-fetched one and is dropped, the page is empty and has no first or last key.
\<close>

lemma pagination_limit_zero_page:
  "items (formatPaginationResult [[''id'' \<mapsto> Str ''1'']] (0 + 1) forward None None) = []
   \<and> firstEvaluatedKey (formatPaginationResult [[''id'' \<mapsto> Str ''1'']] (0 + 1) forward None None) = None
   \<and> lastEvaluatedKey (formatPaginationResult [[''id'' \<mapsto> Str ''1'']] (0 + 1) forward None None) = None
   \<and> (case fst (run (fixedStore \<lparr>Items = Some [[''pk'' \<mapsto> S ''1'']], LastEvaluatedKey = None\<rparr>)
                unmarshallText simpleSchema ''query'' (baseParams\<lparr>Limit := 0\<rparr>)) of
        Inl e \<Rightarrow> False
      | Inr page \<Rightarrow> items page = [] \<and> count page = 0 \<and> hasNext page
                     \<and> firstEvaluatedKey page = None \<and> lastEvaluatedKey page = None)"
  by (simp add: formatPaginationResult_def jsIndex_def run_def derivePage_def decodeCursor_def
      formatRecordAsItemDto_def decodeSide_def setProperty_def simpleSchema_def unmarshallText_def
      fixedStore_def baseParams_def)

subsection \<open>C3: the page derived from an empty answer\<close>

lemma empty_page_flags:
  "formatPaginationResult [] limit dir newCursor oldCursor =
     \<lparr>items = [], lastEvaluatedKey = newCursor, firstEvaluatedKey = newCursor, count = 0,
      hasNext = (newCursor \<noteq> None), hasPrevious = (newCursor \<noteq> None), direction = dir\<rparr>"
  by (simp add: formatPaginationResult_def formatEmptyPaginationResult_def)

text \<open>
  C3 (amended). When the store answers and the decoded item list is empty, \<open>run\<close>
  returns a page with items \<open>[]\<close> and count 0 whose hasNext and hasPrevious are both
  true iff the store's continuation cursor is defined; the starting cursor does not
  enter the page. With no continuation cursor, so in particular for a query of an empty
  partition with no cursors, the page is \<open>{items: [], hasNext: false, hasPrevious: false,
  count: 0}\<close>.
\<close>

theorem C3_empty_page_amended:
  assumes kind: "queryType = ''query'' \<or> queryType = ''scan''"
    and answer: "client queryType
           (if queryType = ''query''
            then buildQueryCommandInput (params\<lparr>Limit := Limit params + 1\<rparr>)
            else buildScanCommandInput (params\<lparr>Limit := Limit params + 1\<rparr>)) = Inr result"
    and decoded: "decodeItems ks (map unmarshall (case Items result of None \<Rightarrow> [] | Some rs \<Rightarrow> rs))
                  = Inr []"
    and newC: "decodeCursor unmarshall ks (LastEvaluatedKey result) = Inr newCursor"
    and oldC: "decodeCursor unmarshall ks (ExclusiveStartKey params) = Inr oldCursor"
  shows "\<exists>page. fst (run client unmarshall ks queryType params) = Inr page
      \<and> items page = [] \<and> count page = 0
      \<and> hasNext page = (newCursor \<noteq> None)
      \<and> hasPrevious page = (newCursor \<noteq> None)
      \<and> (newCursor = None \<longrightarrow> \<not> hasNext page \<and> \<not> hasPrevious page)"
proof -
  let ?p = "params\<lparr>Limit := Limit params + 1\<rparr>"
  let ?page = "formatPaginationResult [] (Limit params + 1)
                 (if ScanIndexForward params = Some True then forward else backward)
                 newCursor oldCursor"
  from run_answer [of queryType client params result, OF kind answer]
  have "run client unmarshall ks queryType params = (derivePage unmarshall ks ?p result, ?p)" .
  moreover have "derivePage unmarshall ks ?p result = Inr ?page"
    using decoded newC oldC by (simp add: derivePage_def)
  ultimately have r: "fst (run client unmarshall ks queryType params) = Inr ?page" by simp
  have "items ?page = [] \<and> count ?page = 0
      \<and> hasNext ?page = (newCursor \<noteq> None)
      \<and> hasPrevious ?page = (newCursor \<noteq> None)
      \<and> (newCursor = None \<longrightarrow> \<not> hasNext ?page \<and> \<not> hasPrevious ?page)"
    by (simp add: empty_page_flags)
  with r show ?thesis by blast
qed

theorem C3_empty_page_amended_witness:
  "fst (run (fixedStore \<lparr>Items = Some [], LastEvaluatedKey = None\<rparr>) unmarshallText simpleSchema
         ''query'' baseParams)
     = Inr \<lparr>items = [], lastEvaluatedKey = None, firstEvaluatedKey = None, count = 0,
            hasNext = False, hasPrevious = False, direction = forward\<rparr>"
proof -
  let ?out = "\<lparr>Items = Some ([] :: (string \<rightharpoonup> AttributeValue) list), LastEvaluatedKey = None\<rparr>"
  have kind: "''query'' = ''query'' \<or> ''query'' = ''scan''" by simp
  have ans: "fixedStore ?out ''query''
           (if ''query'' = ''query''
            then buildQueryCommandInput (baseParams\<lparr>Limit := Limit baseParams + 1\<rparr>)
            else buildScanCommandInput (baseParams\<lparr>Limit := Limit baseParams + 1\<rparr>)) = Inr ?out"
    by (simp add: fixedStore_def)
  have dec: "decodeItems simpleSchema (map unmarshallText (case Items ?out of None \<Rightarrow> [] | Some rs \<Rightarrow> rs))
       = Inr []"
    by simp
  have newC: "decodeCursor unmarshallText simpleSchema (LastEvaluatedKey ?out) = Inr None"
    by (simp add: decodeCursor_def)
  have oldC: "decodeCursor unmarshallText simpleSchema (ExclusiveStartKey baseParams) = Inr None"
    by (simp add: decodeCursor_def baseParams_def)
  from C3_empty_page_amended [where queryType = "''query''" and params = baseParams
        and client = "fixedStore ?out" and result = ?out and unmarshall = unmarshallText
        and ks = simpleSchema and newCursor = None and oldCursor = None, OF kind ans dec newC oldC]
  obtain page where r: "fst (run (fixedStore ?out) unmarshallText simpleSchema ''query'' baseParams) = Inr page"
    and flags: "items page = []" "count page = 0" "\<not> hasNext page" "\<not> hasPrevious page"
    by auto
  have "fst (run (fixedStore ?out) unmarshallText simpleSchema ''query'' baseParams)
     = Inr \<lparr>items = [], lastEvaluatedKey = None, firstEvaluatedKey = None, count = 0,
            hasNext = False, hasPrevious = False, direction = forward\<rparr>"
    by (simp add: run_def derivePage_def decodeCursor_def formatPaginationResult_def
        formatEmptyPaginationResult_def fixedStore_def baseParams_def)
  with r flags show ?thesis by simp
qed

text \<open>
  The claim as stated fails for hasPrevious: \<open>formatEmptyPaginationResult\<close> receives the
  continuation cursor only and sets both flags from it. With a starting cursor and no
  continuation cursor (a page requested behind the last item) the empty page has
  hasPrevious false; with a continuation cursor and no starting cursor it has
  hasPrevious true.
\<close>

theorem C3_hasPrevious_counterexample:
  "hasPrevious (formatPaginationResult [] 11 forward None (Some [''id'' \<mapsto> Str ''9''])) = False
   \<and> hasPrevious (formatPaginationResult [] 11 forward (Some [''id'' \<mapsto> Str ''9'']) None) = True
   \<and> (case fst (run (fixedStore \<lparr>Items = Some [], LastEvaluatedKey = None\<rparr>)
                unmarshallText simpleSchema ''query''
                (baseParams\<lparr>ExclusiveStartKey := Some [''pk'' \<mapsto> S ''9'']\<rparr>)) of
        Inl e \<Rightarrow> False
      | Inr page \<Rightarrow> items page = [] \<and> count page = 0 \<and> \<not> hasNext page \<and> \<not> hasPrevious page)"
  by (simp add: formatPaginationResult_def formatEmptyPaginationResult_def run_def derivePage_def
      decodeCursor_def formatRecordAsItemDto_def decodeSide_def setProperty_def simpleSchema_def
      unmarshallText_def fixedStore_def baseParams_def)

subsection \<open>C4: two operators on one field\<close>

lemma sanitizeOperator_comparison:
  "sanitizeOperator ''='' = [] \<and> sanitizeOperator ''<>'' = [] \<and> sanitizeOperator ''<'' = []
   \<and> sanitizeOperator ''<='' = [] \<and> sanitizeOperator ''>'' = [] \<and> sanitizeOperator ''>='' = []"
  by (simp add: sanitizeOperator_def isAlphaNumeric_def)

text \<open>
  C4 says that a field with two comparison operators gets two distinct value
  placeholders. The placeholder is suffixed with the operator stripped of every
  character that is not a letter or a digit; the comparison operators consist of such
  characters only, so both clauses of \<open>{age: {'>': 18, '<': 65}}\<close> use the placeholder
  \<open>:val_age_0_\<close>, and the value table holds the literal of the operator written last.
\<close>

theorem C4_same_field_placeholders_collide:
  "expressionParts (filterParams [(''age'', Some (Operators [(''>'', Some (FNum 18)), (''<'', Some (FNum 65))]))])
     = [''#age_0 > :val_age_0_'', ''#age_0 < :val_age_0_'']
   \<and> dom (vals (filterParams [(''age'', Some (Operators [(''>'', Some (FNum 18)), (''<'', Some (FNum 65))]))]))
     = {'':val_age_0_''}
   \<and> vals (filterParams [(''age'', Some (Operators [(''>'', Some (FNum 18)), (''<'', Some (FNum 65))]))])
        '':val_age_0_'' = Some (N ''65'')
   \<and> FilterExpression (filter_chain
        [(''age'', Some (Operators [(''>'', Some (FNum 18)), (''<'', Some (FNum 65))]))] baseParams)
     = Some ''#age_0 > :val_age_0_ AND #age_0 < :val_age_0_''"
  by (simp add: filterParams_def filter_chain_def filterRaw_def safeKeyOf_def sanitizeOperator_def
      isAlphaNumeric_def natToString.simps digit_def intToString_def baseParams_def truthy_def Let_def)

theorem C4_same_field_placeholders_collide_witness:
  "expressionParts (filterParams [(''age'', Some (Operators [(''>'', Some (FNum 18)), (''<'', Some (FNum 65))]))])
     = [''#age_0 > :val_age_0_'', ''#age_0 < :val_age_0_'']"
  using C4_same_field_placeholders_collide by (rule conjunct1)

subsection \<open>C6: merging a raw filter\<close>

lemma filterRaw_merge:
  assumes "ExpressionAttributeNames params = Some ns" and "ExpressionAttributeValues params = Some vs"
  shows "ExpressionAttributeNames (filterRaw f params) = Some (ns ++ rawExpressionAttributeNames f)"
    and "ExpressionAttributeValues (filterRaw f params) = Some (vs ++ rawExpressionAttributeValues f)"
    and "FilterExpression (filterRaw f params) =
           (if truthy (FilterExpression params)
            then Some (the (FilterExpression params) @ '' AND ('' @ rawFilterExpression f @ '')'')
            else Some (rawFilterExpression f))"
  using assms by (simp_all add: filterRaw_def)

text \<open>
  C6 says that every new name entry is present in the merged table. When the request
  has no name table, \<open>filterRaw\<close> sets it to the empty object and drops the
  names of the filter, while the filter expression that uses them is installed (the
  value table is installed in the same situation). The request of \<open>Table.scan\<close> has
  no name table, so the documented \<open>scan({ limit: 100 }).filter({ message_text: 'spam' })\<close>
  ends with the expression \<open>#message_text_0 = :val_message_text_0\<close> and no names.
\<close>

theorem C6_filterRaw_drops_names:
  "ExpressionAttributeNames
     (filterRaw \<lparr>rawFilterExpression = ''attribute_exists(#status)'',
                 rawExpressionAttributeNames = [''#status'' \<mapsto> ''status''],
                 rawExpressionAttributeValues = ['':val'' \<mapsto> S ''active'']\<rparr>
        (baseParams\<lparr>ExpressionAttributeNames := None\<rparr>)) = Some Map.empty
   \<and> FilterExpression
     (filterRaw \<lparr>rawFilterExpression = ''attribute_exists(#status)'',
                 rawExpressionAttributeNames = [''#status'' \<mapsto> ''status''],
                 rawExpressionAttributeValues = ['':val'' \<mapsto> S ''active'']\<rparr>
        (baseParams\<lparr>ExpressionAttributeNames := None\<rparr>)) = Some ''attribute_exists(#status)''
   \<and> map_option (\<lambda>t. t '':val'') (ExpressionAttributeValues
     (filterRaw \<lparr>rawFilterExpression = ''attribute_exists(#status)'',
                 rawExpressionAttributeNames = [''#status'' \<mapsto> ''status''],
                 rawExpressionAttributeValues = ['':val'' \<mapsto> S ''active'']\<rparr>
        (baseParams\<lparr>ExpressionAttributeNames := None\<rparr>))) = Some (Some (S ''active''))
   \<and> FilterExpression (filter_chain [(''message_text'', Some (Direct (FStr ''spam'')))] scanParams)
       = Some ''#message_text_0 = :val_message_text_0''
   \<and> ExpressionAttributeNames (filter_chain [(''message_text'', Some (Direct (FStr ''spam'')))] scanParams)
       = Some Map.empty
   \<and> map_option (\<lambda>t. t '':val_message_text_0'')
         (ExpressionAttributeValues (filter_chain [(''message_text'', Some (Direct (FStr ''spam'')))] scanParams))
       = Some (Some (S ''spam''))"
  by (simp add: filterRaw_def baseParams_def truthy_def filter_chain_def filterParams_def
      safeKeyOf_def natToString.simps digit_def scanParams_def Let_def)

theorem C6_filterRaw_drops_names_witness:
  "ExpressionAttributeNames
     (filterRaw \<lparr>rawFilterExpression = ''attribute_exists(#status)'',
                 rawExpressionAttributeNames = [''#status'' \<mapsto> ''status''],
                 rawExpressionAttributeValues = ['':val'' \<mapsto> S ''active'']\<rparr>
        (baseParams\<lparr>ExpressionAttributeNames := None\<rparr>)) = Some Map.empty"
  using C6_filterRaw_drops_names by (rule conjunct1)

subsection \<open>C7: the partial sort key of a record given out of order\<close>

lemma whereSKBeginsWith_formatted:
  "sk ks = Some d \<Longrightarrow> formatPartialOrderedSK ks skRec = Inr v \<Longrightarrow>
   whereSKBeginsWith ks skRec params =
     (Inr (), appendKeyCondition '' AND begins_with(#sk, :sk)'' (setValue '':sk'' (S v) (bindSK d params)))"
  by (simp add: whereSKBeginsWith_def Let_def)

text \<open>
  C7 says that the partial encoding joins the values in the schema's declared order,
  whatever the order of the fields in the supplied record. The validation sorts a copy
  of the keys; the encoding uses \<open>Object.keys(sk)\<close> again, so the record
  \<open>{B: 'b', A: 'a'}\<close> passes the validation and is encoded as \<open>b#a\<close>, which
  \<open>whereSKBeginsWith\<close> then binds to \<open>:sk\<close>.
\<close>

theorem C7_partial_encoding_follows_record_order:
  "assertPartialOrderSKIsCorrect schema2 [(''B'', Str ''b''), (''A'', Str ''a'')] = Inr ()
   \<and> formatPartialOrderedSK schema2 [(''B'', Str ''b''), (''A'', Str ''a'')] = Inr ''b#a''
   \<and> formatPartialOrderedSK schema2 [(''A'', Str ''a''), (''B'', Str ''b'')] = Inr ''a#b''
   \<and> fst (whereSKBeginsWith schema2 [(''B'', Str ''b''), (''A'', Str ''a'')] baseParams) = Inr ()
   \<and> map_option (\<lambda>t. t '':sk'')
         (ExpressionAttributeValues
            (snd (whereSKBeginsWith schema2 [(''B'', Str ''b''), (''A'', Str ''a'')] baseParams)))
       = Some (Some (S ''b#a''))"
proof -
  have a: "assertPartialOrderSKIsCorrect schema2 [(''B'', Str ''b''), (''A'', Str ''a'')] = Inr ()"
    by (simp add: assertPartialOrderSKIsCorrect_def schema2_def checkOrder.simps jsIndex_def)
  have f: "formatPartialOrderedSK schema2 [(''B'', Str ''b''), (''A'', Str ''a'')] = Inr ''b#a''"
    by (simp add: formatPartialOrderedSK_def a) (simp add: schema2_def formatKey_def mustGet_def)
  have g: "formatPartialOrderedSK schema2 [(''A'', Str ''a''), (''B'', Str ''b'')] = Inr ''a#b''"
    by (simp add: formatPartialOrderedSK_def assertPartialOrderSKIsCorrect_def schema2_def
      checkOrder.simps jsIndex_def formatKey_def mustGet_def)
  have w: "whereSKBeginsWith schema2 [(''B'', Str ''b''), (''A'', Str ''a'')] baseParams =
      (Inr (), appendKeyCondition '' AND begins_with(#sk, :sk)''
         (setValue '':sk'' (S ''b#a'')
            (bindSK \<lparr>name = ''sk'', keys = [''A'', ''B'', ''C'', ''D'', ''E''], separator = Some ''#''\<rparr>
               baseParams)))"
    by (rule whereSKBeginsWith_formatted [OF _ f]) (simp add: schema2_def)
  show ?thesis
    by (simp add: a f g w appendKeyCondition_def setValue_def bindSK_def)
qed

theorem C7_partial_encoding_follows_record_order_witness:
  "formatPartialOrderedSK schema2 [(''B'', Str ''b''), (''A'', Str ''a'')] = Inr ''b#a''"
  using C7_partial_encoding_follows_record_order by (rule conjunct2 [THEN conjunct1])

subsection \<open>C9: what run and pivot change in the request\<close>

text \<open>
  C9 (amended). Whatever the store answers, and also when \<open>run\<close> throws, \<open>run\<close> leaves
  the stored request equal to the one before the call except for \<open>Limit\<close>, which is
  one more than before: KeyConditionExpression, FilterExpression, ProjectionExpression,
  the name and value tables and ExclusiveStartKey are unchanged. A successful \<open>pivot\<close>
  changes ExclusiveStartKey only, and sets it.
\<close>

theorem C9_run_frame:
  "snd (run client unmarshall ks queryType params) = params\<lparr>Limit := Limit params + 1\<rparr>
   \<and> (\<forall>params'. pivot withIndex ks pivotKey params = Inr params' \<longrightarrow>
          params' = params\<lparr>ExclusiveStartKey := ExclusiveStartKey params'\<rparr>
          \<and> ExclusiveStartKey params' \<noteq> None)"
  by (auto simp: run_def pivot_def Let_def split: sum.splits)

theorem C9_run_frame_witness:
  "snd (run (fixedStore \<lparr>Items = Some [], LastEvaluatedKey = None\<rparr>) unmarshallText simpleSchema
          ''query'' baseParams) = baseParams\<lparr>Limit := 11\<rparr>
   \<and> pivot (\<lambda>k i. Inl TypeError) simpleSchema [''id'' \<mapsto> Str ''7''] baseParams
       = Inr (baseParams\<lparr>ExclusiveStartKey := Some [''pk'' \<mapsto> S ''7'']\<rparr>)"
proof -
  have p: "pivot (\<lambda>k i. Inl TypeError) simpleSchema [''id'' \<mapsto> Str ''7''] baseParams
       = Inr (baseParams\<lparr>ExclusiveStartKey := Some [''pk'' \<mapsto> S ''7'']\<rparr>)"
    by (simp add: pivot_def formatItemKeysDtoAsRecord_def setProperty_def formatKey_def mustGet_def
        simpleSchema_def baseParams_def truthy_def)
  have "Limit baseParams = 10" by (simp add: baseParams_def)
  then show ?thesis
    using p C9_run_frame [of "fixedStore \<lparr>Items = Some [], LastEvaluatedKey = None\<rparr>" unmarshallText
      simpleSchema "''query''" baseParams "\<lambda>k i. Inl TypeError" "[''id'' \<mapsto> Str ''7'']"]
    by simp
qed

text \<open>
  The claim as stated fails: \<open>Limit\<close> is 10 before \<open>run\<close>, 11 after it and 12 after a
  second \<open>run\<close> of the same request.
\<close>

theorem C9_run_changes_Limit_counterexample:
  "Limit baseParams = 10
   \<and> Limit (snd (run (fixedStore \<lparr>Items = Some [], LastEvaluatedKey = None\<rparr>) unmarshallText
                   simpleSchema ''query'' baseParams)) = 11
   \<and> Limit (snd (run (fixedStore \<lparr>Items = Some [], LastEvaluatedKey = None\<rparr>) unmarshallText
                   simpleSchema ''query''
                   (snd (run (fixedStore \<lparr>Items = Some [], LastEvaluatedKey = None\<rparr>) unmarshallText
                          simpleSchema ''query'' baseParams)))) = 12"
  by (simp add: run_def fixedStore_def baseParams_def Let_def)

subsection \<open>Declared indexes and the ordered keys\<close>

lemma indexOf_ge: "- 1 \<le> indexOf xs x"
  by (induction xs) (auto simp: Let_def)

lemma indexOf_notin: "x \<notin> set xs \<Longrightarrow> indexOf xs x = - 1"
  by (induction xs) (auto simp: Let_def)

lemma indexOf_in:
  "x \<in> set xs \<Longrightarrow> 0 \<le> indexOf xs x \<and> nat (indexOf xs x) < length xs \<and> xs ! nat (indexOf xs x) = x"
proof (induction xs)
  case Nil
  then show ?case by simp
next
  case (Cons y ys)
  show ?case
  proof (cases "y = x")
    case True
    then show ?thesis by simp
  next
    case False
    with Cons.prems have "x \<in> set ys" by simp
    from Cons.IH [OF this] have ih: "0 \<le> indexOf ys x" "nat (indexOf ys x) < length ys"
      "ys ! nat (indexOf ys x) = x" by auto
    from ih(1) have "nat (indexOf ys x + 1) = Suc (nat (indexOf ys x))" by simp
    with False ih show ?thesis by (simp add: Let_def)
  qed
qed

lemma indexOf_nth:
  "distinct xs \<Longrightarrow> i < length xs \<Longrightarrow> indexOf xs (xs ! i) = int i"
proof (induction xs arbitrary: i)
  case Nil
  then show ?case by simp
next
  case (Cons y ys)
  show ?case
  proof (cases i)
    case 0
    then show ?thesis by simp
  next
    case (Suc j)
    with Cons.prems have j: "j < length ys" and "distinct ys" and "y \<noteq> ys ! j" by auto
    with Cons.IH [of j] have "indexOf ys (ys ! j) = int j" by simp
    with Suc \<open>y \<noteq> ys ! j\<close> show ?thesis by (simp add: Let_def)
  qed
qed

lemma indexOf_inj: "inj_on (indexOf xs) (set xs)"
proof (rule inj_onI)
  fix a b assume "a \<in> set xs" "b \<in> set xs" "indexOf xs a = indexOf xs b"
  then show "a = b" using indexOf_in [of a xs] indexOf_in [of b xs] by metis
qed

lemma sorted_map_hd_le:
  "sorted (map f ys) \<Longrightarrow> y \<in> set ys \<Longrightarrow> f (hd ys) \<le> f y"
  by (cases ys) auto

lemma jsIndex_0: "jsIndex xs 0 = (if xs = [] then None else Some (hd xs))"
  by (cases xs) (simp_all add: jsIndex_def)

text \<open>A key that the schema does not declare comes first in the ordered keys.\<close>

lemma unknown_key_first:
  assumes "k \<in> set keysInSK" and "k \<notin> set schema"
  shows "jsIndex (sort_key (indexOf schema) keysInSK) 0 \<noteq> jsIndex schema 0"
proof -
  let ?ord = "sort_key (indexOf schema) keysInSK"
  have ne: "?ord \<noteq> []" using assms(1) by (metis empty_iff list.set(1) set_sort)
  have "k \<in> set ?ord" using assms(1) by simp
  then have "indexOf schema (hd ?ord) \<le> indexOf schema k"
    by (intro sorted_map_hd_le) simp_all
  then have "indexOf schema (hd ?ord) < 0"
    using indexOf_notin [OF assms(2)] by simp
  then have "hd ?ord \<notin> set schema"
    using indexOf_in [of "hd ?ord" schema] by auto
  then have "Some (hd ?ord) \<noteq> jsIndex schema 0"
    by (cases schema) (auto simp: jsIndex_0)
  with ne show ?thesis by (simp add: jsIndex_0)
qed

lemma assert_unknown_key:
  assumes "k \<in> set (map fst skRec)" and "k \<notin> set (case sk ks of None \<Rightarrow> [] | Some d \<Rightarrow> keys d)"
  shows "assertPartialOrderSKIsCorrect ks skRec = Inl FIRST_KEY_NOT_INCLUDED_IN_SK"
proof -
  have "map fst skRec \<noteq> []" using assms(1) by auto
  then show ?thesis
    using unknown_key_first [OF assms] by (simp add: assertPartialOrderSKIsCorrect_def Let_def)
qed

subsection \<open>C10: a field that the schema does not declare\<close>

text \<open>
  C10. For a schema with a declared sort side, a supplied partial sort-key record with
  a field that is not among the declared sort parts is refused with
  FIRST_KEY_NOT_INCLUDED_IN_SK, whatever else the record holds (also a complete valid
  prefix): by \<open>assertPartialOrderSKIsCorrect\<close>, by \<open>formatPartialOrderedSK\<close> and by every
  range builder that is given the record (for \<open>whereSKBetween\<close>: as the lower bound, or
  as the upper bound when the lower bound is formatted). The error does not carry a
  field name.
\<close>

theorem C10_unknown_field:
  assumes declared: "sk ks = Some d"
    and unknown: "\<exists>k \<in> set (map fst skRec). k \<notin> set (keys d)"
  shows "assertPartialOrderSKIsCorrect ks skRec = Inl FIRST_KEY_NOT_INCLUDED_IN_SK
     \<and> formatPartialOrderedSK ks skRec = Inl FIRST_KEY_NOT_INCLUDED_IN_SK
     \<and> fst (compare ks skRec operator params) = Inl FIRST_KEY_NOT_INCLUDED_IN_SK
     \<and> fst (whereSKequal ks skRec params) = Inl FIRST_KEY_NOT_INCLUDED_IN_SK
     \<and> fst (whereSKGreaterThan ks skRec params) = Inl FIRST_KEY_NOT_INCLUDED_IN_SK
     \<and> fst (whereSKLowerThan ks skRec params) = Inl FIRST_KEY_NOT_INCLUDED_IN_SK
     \<and> fst (whereSKGreaterThanOrEqual ks skRec params) = Inl FIRST_KEY_NOT_INCLUDED_IN_SK
     \<and> fst (whereSKLowerThanOrEqual ks skRec params) = Inl FIRST_KEY_NOT_INCLUDED_IN_SK
     \<and> fst (whereSKBeginsWith ks skRec params) = Inl FIRST_KEY_NOT_INCLUDED_IN_SK
     \<and> fst (whereSKBetween ks skRec other params) = Inl FIRST_KEY_NOT_INCLUDED_IN_SK
     \<and> (\<forall>v. formatPartialOrderedSK ks other = Inr v \<longrightarrow>
            fst (whereSKBetween ks other skRec params) = Inl FIRST_KEY_NOT_INCLUDED_IN_SK)"
proof -
  from unknown obtain k where k: "k \<in> set (map fst skRec)" "k \<notin> set (keys d)" by blast
  have a: "assertPartialOrderSKIsCorrect ks skRec = Inl FIRST_KEY_NOT_INCLUDED_IN_SK"
    using assert_unknown_key [of k skRec ks] k declared by simp
  then have f: "formatPartialOrderedSK ks skRec = Inl FIRST_KEY_NOT_INCLUDED_IN_SK"
    by (simp add: formatPartialOrderedSK_def)
  have c: "fst (compare ks skRec op params) = Inl FIRST_KEY_NOT_INCLUDED_IN_SK" for op
    using f declared by (simp add: compare_def Let_def)
  have b: "fst (whereSKBeginsWith ks skRec params) = Inl FIRST_KEY_NOT_INCLUDED_IN_SK"
    using f declared by (simp add: whereSKBeginsWith_def Let_def)
  have w1: "fst (whereSKBetween ks skRec other params) = Inl FIRST_KEY_NOT_INCLUDED_IN_SK"
    using f declared by (simp add: whereSKBetween_def Let_def)
  have w2: "\<forall>v. formatPartialOrderedSK ks other = Inr v \<longrightarrow>
            fst (whereSKBetween ks other skRec params) = Inl FIRST_KEY_NOT_INCLUDED_IN_SK"
    using f declared by (simp add: whereSKBetween_def Let_def)
  show ?thesis
    using a f c b w1 w2
    by (simp add: whereSKequal_def whereSKGreaterThan_def whereSKLowerThan_def
        whereSKGreaterThanOrEqual_def whereSKLowerThanOrEqual_def)
qed

theorem C10_unknown_field_witness:
  "assertPartialOrderSKIsCorrect schema2 [(''A'', Str ''a''), (''B'', Str ''b''), (''Z'', Str ''z'')]
     = Inl FIRST_KEY_NOT_INCLUDED_IN_SK
   \<and> fst (whereSKBeginsWith schema2 [(''A'', Str ''a''), (''B'', Str ''b''), (''Z'', Str ''z'')] baseParams)
     = Inl FIRST_KEY_NOT_INCLUDED_IN_SK
   \<and> assertPartialOrderSKIsCorrect schema2 [(''A'', Str ''a''), (''B'', Str ''b'')] = Inr ()"
proof -
  let ?d = "\<lparr>name = ''sk'', keys = [''A'', ''B'', ''C'', ''D'', ''E''], separator = Some ''#''\<rparr>"
  have d: "sk schema2 = Some ?d" by (simp add: schema2_def)
  have u: "\<exists>k \<in> set (map fst [(''A'', Str ''a''), (''B'', Str ''b''), (''Z'', Str ''z'')]). k \<notin> set (keys ?d)"
    by simp
  have ok: "assertPartialOrderSKIsCorrect schema2 [(''A'', Str ''a''), (''B'', Str ''b'')] = Inr ()"
    by (simp add: assertPartialOrderSKIsCorrect_def schema2_def checkOrder.simps jsIndex_def)
  from C10_unknown_field [OF d u, of "''=''" baseParams "[]"] ok
  show ?thesis by simp
qed

subsection \<open>C5: validation of a partial sort key\<close>

lemma checkOrder_prefix:
  "i \<le> k \<Longrightarrow> k \<le> length schema \<Longrightarrow> checkOrder i (take k schema) schema = Inr ()"
proof (induction "k - i" arbitrary: i)
  case 0
  then show ?case by (simp add: checkOrder.simps)
next
  case (Suc m)
  then have "i < k" "k - (i + 1) = m" "i + 1 \<le> k" by auto
  with Suc.hyps(1) [of "i + 1"] Suc.prems
  have "checkOrder (i + 1) (take k schema) schema = Inr ()" by simp
  with \<open>i < k\<close> Suc.prems show ?case
    by (subst checkOrder.simps) (simp add: jsIndex_def)
qed

lemma checkOrder_ok_agree:
  "checkOrder i ord schema = Inr () \<Longrightarrow> i \<le> j \<Longrightarrow> j < length schema \<Longrightarrow> j < length ord \<Longrightarrow>
   ord ! j = schema ! j"
proof (induction i ord schema rule: checkOrder.induct)
  case (1 i ord schema)
  from "1.prems" have i: "i < length schema" "i < length ord" by auto
  from "1.prems"(1) i have eq: "ord ! i = schema ! i"
    and rest: "checkOrder (i + 1) ord schema = Inr ()"
    by (subst (asm) checkOrder.simps, simp add: jsIndex_def split: if_splits)+
  show ?case
  proof (cases "j = i")
    case True
    with eq show ?thesis by simp
  next
    case False
    with "1.prems" have "i + 1 \<le> j" by simp
    with "1.IH" [OF i(1) _ _ rest] i eq "1.prems" show ?thesis
      by (simp add: jsIndex_def)
  qed
qed

lemma checkOrder_first_mismatch:
  "i \<le> m \<Longrightarrow> m < length schema \<Longrightarrow> m < length ord \<Longrightarrow> ord ! m \<noteq> schema ! m \<Longrightarrow>
   (\<forall>j. i \<le> j \<and> j < m \<longrightarrow> ord ! j = schema ! j) \<Longrightarrow>
   checkOrder i ord schema = Inl (KEY_NOT_INCLUDED_IN_SK (schema ! m))"
proof (induction "m - i" arbitrary: i)
  case 0
  then have "i = m" by simp
  with 0 show ?case by (subst checkOrder.simps) (simp add: jsIndex_def)
next
  case (Suc d)
  then have lt: "i < m" and d: "m - (i + 1) = d" by auto
  with Suc.prems have eq: "ord ! i = schema ! i" by simp
  have "checkOrder (i + 1) ord schema = Inl (KEY_NOT_INCLUDED_IN_SK (schema ! m))"
    using Suc.hyps(1) [of "i + 1"] d lt Suc.prems by simp
  with lt eq Suc.prems show ?case
    by (subst checkOrder.simps) (simp add: jsIndex_def)
qed

lemma assert_unfold:
  "sk ks = Some d \<Longrightarrow>
   assertPartialOrderSKIsCorrect ks skRec =
     (if map fst skRec = [] then Inl SK_EMPTY
      else if jsIndex (sort_key (indexOf (keys d)) (map fst skRec)) 0 \<noteq> jsIndex (keys d) 0
      then Inl FIRST_KEY_NOT_INCLUDED_IN_SK
      else checkOrder 1 (sort_key (indexOf (keys d)) (map fst skRec)) (keys d))"
  by (simp add: assertPartialOrderSKIsCorrect_def Let_def)

lemma strict_int_nth_ge:
  "sorted_wrt (<) (js :: int list) \<Longrightarrow> \<forall>x\<in>set js. 0 \<le> x \<Longrightarrow> j < length js \<Longrightarrow> int j \<le> js ! j"
proof (induction j)
  case 0
  then show ?case by simp
next
  case (Suc j)
  then have "int j \<le> js ! j" by simp
  moreover have "js ! j < js ! Suc j"
    using Suc.prems sorted_wrt_nth_less [of "(<)" js j "Suc j"] by simp
  ultimately show ?case by simp
qed

lemma map_indexOf_take:
  assumes "distinct schema" and "k \<le> length schema"
  shows "map (indexOf schema) (take k schema) = map int [0..<k]"
  using assms by (intro nth_equalityI) (simp_all add: indexOf_nth)

lemma ordered_strict:
  assumes "distinct keysInSK" and "set keysInSK \<subseteq> set schema"
  shows "sorted_wrt (<) (map (indexOf schema) (sort_key (indexOf schema) keysInSK))"
proof -
  let ?ord = "sort_key (indexOf schema) keysInSK"
  have "inj_on (indexOf schema) (set ?ord)"
    using assms(2) by (auto intro: inj_on_subset [OF indexOf_inj])
  then have "distinct (map (indexOf schema) ?ord)"
    using assms(1) by (simp add: distinct_map)
  then show ?thesis by (simp add: strict_sorted_iff)
qed

lemma ordered_prefix:
  assumes ds: "distinct schema" and dk: "distinct keysInSK"
    and k: "k \<le> length schema" and eq: "set keysInSK = set (take k schema)"
  shows "sort_key (indexOf schema) keysInSK = take k schema"
proof -
  let ?idx = "indexOf schema"
  let ?ord = "sort_key ?idx keysInSK"
  have sub: "set keysInSK \<subseteq> set schema" using eq by (auto dest: in_set_takeD)
  have "sorted_wrt (<) (map ?idx ?ord)" by (rule ordered_strict [OF dk sub])
  moreover have "sorted_wrt (<) (map ?idx (take k schema))"
    unfolding map_indexOf_take [OF ds k] by (simp add: sorted_wrt_map)
  moreover have "set (map ?idx ?ord) = set (map ?idx (take k schema))"
    using eq by simp
  ultimately have "map ?idx ?ord = map ?idx (take k schema)"
    by (simp add: strict_sorted_iff sorted_distinct_set_unique)
  moreover have "inj_on ?idx (set ?ord \<union> set (take k schema))"
    using sub eq by (auto intro: inj_on_subset [OF indexOf_inj])
  ultimately show ?thesis by (simp add: inj_on_map_eq_map)
qed

lemma sort_key_Nil_iff: "(sort_key f xs = []) = (xs = [])"
  by (metis length_sort length_0_conv)

lemma ordered_length_le:
  assumes "distinct keysInSK" and "set keysInSK \<subseteq> set schema"
  shows "length (sort_key f keysInSK) \<le> length schema"
proof -
  have "length (sort_key f keysInSK) = card (set keysInSK)"
    using assms(1) by (simp add: distinct_card)
  also have "\<dots> \<le> card (set schema)" using assms(2) by (simp add: card_mono)
  also have "\<dots> \<le> length schema" by (rule card_length)
  finally show ?thesis .
qed

lemma partial_order_accepts:
  assumes d: "sk ks = Some d" and ds: "distinct (keys d)" and dk: "distinct (map fst skRec)"
    and k: "0 < k" "k \<le> length (keys d)" and eq: "set (map fst skRec) = set (take k (keys d))"
  shows "assertPartialOrderSKIsCorrect ks skRec = Inr ()"
proof -
  let ?schema = "keys d"
  have ord: "sort_key (indexOf ?schema) (map fst skRec) = take k ?schema"
    by (rule ordered_prefix [OF ds dk k(2) eq])
  have ne: "take k ?schema \<noteq> []" using k by auto
  then have "map fst skRec \<noteq> []" using eq by (metis set_empty)
  moreover have "jsIndex (take k ?schema) 0 = jsIndex ?schema 0"
    using k by (cases ?schema) (auto simp: jsIndex_def)
  moreover have "checkOrder 1 (take k ?schema) ?schema = Inr ()"
    using k by (intro checkOrder_prefix) simp_all
  ultimately show ?thesis by (simp add: assert_unfold [OF d] ord)
qed

lemma partial_order_accepted_prefix:
  assumes d: "sk ks = Some d" and dk: "distinct (map fst skRec)"
    and ok: "assertPartialOrderSKIsCorrect ks skRec = Inr ()"
  shows "\<exists>k. 0 < k \<and> k \<le> length (keys d) \<and> set (map fst skRec) = set (take k (keys d))"
proof -
  let ?schema = "keys d"
  let ?K = "map fst skRec"
  let ?ord = "sort_key (indexOf ?schema) ?K"
  have known: "set ?K \<subseteq> set ?schema"
  proof
    fix x assume "x \<in> set ?K"
    show "x \<in> set ?schema"
    proof (rule ccontr)
      assume "x \<notin> set ?schema"
      with assert_unknown_key [of x skRec ks] \<open>x \<in> set ?K\<close> d ok show False by simp
    qed
  qed
  from ok have ne: "?K \<noteq> []" and first: "jsIndex ?ord 0 = jsIndex ?schema 0"
    and rest: "checkOrder 1 ?ord ?schema = Inr ()"
    by (auto simp: assert_unfold [OF d] split: if_splits)
  have len: "length ?ord \<le> length ?schema" by (rule ordered_length_le [OF dk known])
  have one: "0 < length ?ord" using ne by simp
  have "?ord \<noteq> []" using ne by (simp add: sort_key_Nil_iff)
  with first have "?schema \<noteq> []" "hd ?ord = hd ?schema"
    by (auto simp: jsIndex_0 split: if_splits)
  then have zero: "?ord ! 0 = ?schema ! 0" using \<open>?ord \<noteq> []\<close> by (simp add: hd_conv_nth)
  have "?ord ! j = take (length ?ord) ?schema ! j" if "j < length ?ord" for j
  proof (cases j)
    case 0
    with zero one show ?thesis by simp
  next
    case (Suc i)
    with that len checkOrder_ok_agree [OF rest, of j] show ?thesis by simp
  qed
  then have "?ord = take (length ?ord) ?schema"
    using len by (intro nth_equalityI) simp_all
  then have "set ?K = set (take (length ?ord) ?schema)" by (metis set_sort)
  with one len show ?thesis by blast
qed

lemma partial_order_first_key:
  assumes d: "sk ks = Some d" and ne: "map fst skRec \<noteq> []"
    and bad: "keys d = [] \<or> hd (keys d) \<notin> set (map fst skRec) \<or> \<not> set (map fst skRec) \<subseteq> set (keys d)"
  shows "assertPartialOrderSKIsCorrect ks skRec = Inl FIRST_KEY_NOT_INCLUDED_IN_SK"
proof -
  let ?schema = "keys d"
  let ?K = "map fst skRec"
  let ?ord = "sort_key (indexOf ?schema) ?K"
  have o: "?ord \<noteq> []" using ne by (simp add: sort_key_Nil_iff)
  have "jsIndex ?ord 0 \<noteq> jsIndex ?schema 0"
  proof (cases "set ?K \<subseteq> set ?schema")
    case False
    then obtain x where "x \<in> set ?K" "x \<notin> set ?schema" by blast
    then show ?thesis by (rule unknown_key_first)
  next
    case True
    with bad have "?schema = [] \<or> hd ?schema \<notin> set ?K" by blast
    moreover have "hd ?ord \<in> set ?K" using o by (metis hd_in_set set_sort)
    ultimately have "?schema = [] \<or> hd ?ord \<noteq> hd ?schema" by metis
    then show ?thesis using o by (auto simp: jsIndex_0)
  qed
  with ne show ?thesis by (simp add: assert_unfold [OF d])
qed


lemma partial_order_first_missing:
  assumes d: "sk ks = Some d" and ds: "distinct (keys d)" and dk: "distinct (map fst skRec)"
    and ne: "map fst skRec \<noteq> []" and known: "set (map fst skRec) \<subseteq> set (keys d)"
    and p1: "hd (keys d) \<in> set (map fst skRec)"
    and np: "\<not> (\<exists>k. 0 < k \<and> k \<le> length (keys d) \<and> set (map fst skRec) = set (take k (keys d)))"
  shows "\<exists>m. m < length (keys d) \<and> keys d ! m \<notin> set (map fst skRec)
           \<and> (\<forall>j<m. keys d ! j \<in> set (map fst skRec))
           \<and> assertPartialOrderSKIsCorrect ks skRec = Inl (KEY_NOT_INCLUDED_IN_SK (keys d ! m))"
proof -
  let ?schema = "keys d"
  let ?K = "map fst skRec"
  let ?idx = "indexOf ?schema"
  let ?ord = "sort_key ?idx ?K"
  have o: "?ord \<noteq> []" using ne by (simp add: sort_key_Nil_iff)
  have sne: "?schema \<noteq> []" using ne known by auto
  have len: "length ?ord \<le> length ?schema" by (rule ordered_length_le [OF dk known])
  have strict: "sorted_wrt (<) (map ?idx ?ord)" by (rule ordered_strict [OF dk known])
  have nonneg: "\<forall>x\<in>set (map ?idx ?ord). 0 \<le> x"
    using known indexOf_in [of _ ?schema] by auto
  have ge: "int j \<le> ?idx (?ord ! j)" if "j < length ?ord" for j
    using strict_int_nth_ge [OF strict nonneg, of j] that by simp
  have at: "?ord ! j = ?schema ! j" if "j < length ?ord" "?idx (?ord ! j) = int j" for j
  proof -
    have "?ord ! j \<in> set ?schema" using that(1) known by (metis nth_mem set_sort subsetD)
    from indexOf_in [OF this] that(2) show ?thesis by simp
  qed
  have zero: "?ord ! 0 = ?schema ! 0"
  proof -
    have "?idx (hd ?schema) = 0" using sne by (cases ?schema) simp_all
    moreover have "?idx (hd ?ord) \<le> ?idx (hd ?schema)"
      using p1 by (intro sorted_map_hd_le) simp_all
    moreover have "0 \<le> ?idx (?ord ! 0)" using ge [of 0] ne by simp
    ultimately have "?idx (?ord ! 0) = int 0" using o ne by (simp add: hd_conv_nth)
    with at [of 0] o ne show ?thesis by simp
  qed
  have first: "jsIndex ?ord 0 = jsIndex ?schema 0"
    using zero o ne sne by (simp add: jsIndex_0 hd_conv_nth)
  have "\<exists>j. j < length ?ord \<and> ?ord ! j \<noteq> ?schema ! j"
  proof (rule ccontr)
    assume "\<not> (\<exists>j. j < length ?ord \<and> ?ord ! j \<noteq> ?schema ! j)"
    then have "?ord = take (length ?ord) ?schema"
      using len by (intro nth_equalityI) simp_all
    then have "set ?K = set (take (length ?ord) ?schema)" by (metis set_sort)
    moreover have "0 < length ?ord" using o ne by simp
    ultimately show False using np len by blast
  qed
  then obtain j0 where j0: "j0 < length ?ord \<and> ?ord ! j0 \<noteq> ?schema ! j0" by blast
  define m where "m = (LEAST j. j < length ?ord \<and> ?ord ! j \<noteq> ?schema ! j)"
  have m: "m < length ?ord" "?ord ! m \<noteq> ?schema ! m"
    using LeastI [of "\<lambda>j. j < length ?ord \<and> ?ord ! j \<noteq> ?schema ! j" j0] j0
    unfolding m_def by auto
  have before: "?ord ! j = ?schema ! j" if "j < m" for j
  proof -
    have "\<not> (j < length ?ord \<and> ?ord ! j \<noteq> ?schema ! j)"
      using not_less_Least [of j "\<lambda>j. j < length ?ord \<and> ?ord ! j \<noteq> ?schema ! j"] that
      unfolding m_def by blast
    with that m(1) show ?thesis by simp
  qed
  have m1: "1 \<le> m" using m(2) zero by (cases m) auto
  have mlt: "m < length ?schema" using m(1) len by simp
  have above: "int m < ?idx (?ord ! m)"
  proof -
    have "?idx (?ord ! m) \<noteq> int m" using at [of m] m by blast
    with ge [OF m(1)] show ?thesis by simp
  qed
  have missing: "?schema ! m \<notin> set ?K"
  proof
    assume "?schema ! m \<in> set ?K"
    then have "?schema ! m \<in> set ?ord" by simp
    then obtain i where i: "i < length ?ord" "?ord ! i = ?schema ! m"
      by (metis in_set_conv_nth)
    have im: "?idx (?ord ! i) = int m" using i(2) indexOf_nth [OF ds mlt] by simp
    consider "i < m" | "i = m" | "m < i" by linarith
    then show False
    proof cases
      case 1
      then have "?schema ! i = ?schema ! m" using before [of i] i(2) by simp
      with ds mlt 1 show False by (simp add: nth_eq_iff_index_eq)
    next
      case 2
      with i(2) m(2) show False by simp
    next
      case 3
      have "map ?idx ?ord ! m < map ?idx ?ord ! i"
        using strict 3 i(1) by (intro sorted_wrt_nth_less) simp_all
      then have "?idx (?ord ! m) < ?idx (?ord ! i)" using 3 i(1) by simp
      with above im show False by simp
    qed
  qed
  have present: "\<forall>j<m. ?schema ! j \<in> set ?K"
  proof (intro allI impI)
    fix j assume "j < m"
    then have "?schema ! j = ?ord ! j" "j < length ?ord" using before m(1) by simp_all
    then show "?schema ! j \<in> set ?K" by (metis nth_mem set_sort)
  qed
  have "checkOrder 1 ?ord ?schema = Inl (KEY_NOT_INCLUDED_IN_SK (?schema ! m))"
    using m1 mlt m before by (intro checkOrder_first_mismatch) simp_all
  then have "assertPartialOrderSKIsCorrect ks skRec = Inl (KEY_NOT_INCLUDED_IN_SK (?schema ! m))"
    using ne first by (simp add: assert_unfold [OF d])
  with mlt missing present show ?thesis by blast
qed

text \<open>
  C5. Let the schema declare the distinct sort parts \<open>keys d = [p1..pn]\<close> and let the
  supplied record have the (distinct) field names \<open>map fst skRec\<close>. The validation
  fails with SK_EMPTY when no field is supplied; with FIRST_KEY_NOT_INCLUDED_IN_SK when
  fields are supplied and the first of them in declared order is not \<open>p1\<close>, that is
  when \<open>p1\<close> is not supplied, or a supplied field is not declared, or nothing is
  declared; it succeeds exactly when the supplied fields are a non-empty prefix
  \<open>{p1..pk}\<close> of the declared parts; and otherwise it fails with
  KEY_NOT_INCLUDED_IN_SK naming the first declared part that is not supplied.
\<close>

theorem C5_partial_order_validation:
  assumes d: "sk ks = Some d" and ds: "distinct (keys d)" and dk: "distinct (map fst skRec)"
  shows "(map fst skRec = [] \<longrightarrow> assertPartialOrderSKIsCorrect ks skRec = Inl SK_EMPTY)
   \<and> (map fst skRec \<noteq> [] \<and>
        (keys d = [] \<or> hd (keys d) \<notin> set (map fst skRec) \<or> \<not> set (map fst skRec) \<subseteq> set (keys d))
        \<longrightarrow> assertPartialOrderSKIsCorrect ks skRec = Inl FIRST_KEY_NOT_INCLUDED_IN_SK)
   \<and> ((assertPartialOrderSKIsCorrect ks skRec = Inr ()) =
        (\<exists>k. 0 < k \<and> k \<le> length (keys d) \<and> set (map fst skRec) = set (take k (keys d))))
   \<and> (map fst skRec \<noteq> [] \<and> set (map fst skRec) \<subseteq> set (keys d) \<and> hd (keys d) \<in> set (map fst skRec)
        \<and> \<not> (\<exists>k. 0 < k \<and> k \<le> length (keys d) \<and> set (map fst skRec) = set (take k (keys d)))
        \<longrightarrow> (\<exists>m. m < length (keys d) \<and> keys d ! m \<notin> set (map fst skRec)
                 \<and> (\<forall>j<m. keys d ! j \<in> set (map fst skRec))
                 \<and> assertPartialOrderSKIsCorrect ks skRec = Inl (KEY_NOT_INCLUDED_IN_SK (keys d ! m))))"
proof (intro conjI impI)
  assume "map fst skRec = []"
  then show "assertPartialOrderSKIsCorrect ks skRec = Inl SK_EMPTY"
    by (simp add: assert_unfold [OF d])
next
  assume "map fst skRec \<noteq> [] \<and>
        (keys d = [] \<or> hd (keys d) \<notin> set (map fst skRec) \<or> \<not> set (map fst skRec) \<subseteq> set (keys d))"
  then show "assertPartialOrderSKIsCorrect ks skRec = Inl FIRST_KEY_NOT_INCLUDED_IN_SK"
    using partial_order_first_key [OF d] by blast
next
  show "(assertPartialOrderSKIsCorrect ks skRec = Inr ()) =
        (\<exists>k. 0 < k \<and> k \<le> length (keys d) \<and> set (map fst skRec) = set (take k (keys d)))"
    using partial_order_accepts [OF d ds dk] partial_order_accepted_prefix [OF d dk] by blast
next
  assume "map fst skRec \<noteq> [] \<and> set (map fst skRec) \<subseteq> set (keys d) \<and> hd (keys d) \<in> set (map fst skRec)
        \<and> \<not> (\<exists>k. 0 < k \<and> k \<le> length (keys d) \<and> set (map fst skRec) = set (take k (keys d)))"
  then show "\<exists>m. m < length (keys d) \<and> keys d ! m \<notin> set (map fst skRec)
                 \<and> (\<forall>j<m. keys d ! j \<in> set (map fst skRec))
                 \<and> assertPartialOrderSKIsCorrect ks skRec = Inl (KEY_NOT_INCLUDED_IN_SK (keys d ! m))"
    using partial_order_first_missing [OF d ds dk] by blast
qed

theorem C5_partial_order_validation_witness:
  "assertPartialOrderSKIsCorrect schema2 [] = Inl SK_EMPTY
   \<and> assertPartialOrderSKIsCorrect schema2 [(''B'', Str ''b'')] = Inl FIRST_KEY_NOT_INCLUDED_IN_SK
   \<and> assertPartialOrderSKIsCorrect schema2 [(''B'', Str ''b''), (''A'', Str ''a'')] = Inr ()
   \<and> assertPartialOrderSKIsCorrect schema2 [(''A'', Str ''a''), (''C'', Str ''c'')]
       = Inl (KEY_NOT_INCLUDED_IN_SK ''B'')"
proof -
  let ?d = "\<lparr>name = ''sk'', keys = [''A'', ''B'', ''C'', ''D'', ''E''], separator = Some ''#''\<rparr>"
  let ?b = "[(''B'', Str ''b'')]"
  let ?ba = "[(''B'', Str ''b''), (''A'', Str ''a'')]"
  let ?ac = "[(''A'', Str ''a''), (''C'', Str ''c'')]"
  have d: "sk schema2 = Some ?d" by (simp add: schema2_def)
  have ds: "distinct (keys ?d)" by simp
  have k: "keys ?d = [''A'', ''B'', ''C'', ''D'', ''E'']" by simp
  have dk0: "distinct (map fst ([] :: (string \<times> DynamoScalar) list))" by simp
  have dkb: "distinct (map fst ?b)" by simp
  have dkba: "distinct (map fst ?ba)" by simp
  have dkac: "distinct (map fst ?ac)" by simp
  have 1: "assertPartialOrderSKIsCorrect schema2 [] = Inl SK_EMPTY"
    using C5_partial_order_validation [OF d ds dk0, THEN conjunct1] by simp
  have "map fst ?b \<noteq> [] \<and>
        (keys ?d = [] \<or> hd (keys ?d) \<notin> set (map fst ?b) \<or> \<not> set (map fst ?b) \<subseteq> set (keys ?d))"
    by simp
  from C5_partial_order_validation [OF d ds dkb, THEN conjunct2, THEN conjunct1, THEN mp, OF this]
  have 2: "assertPartialOrderSKIsCorrect schema2 ?b = Inl FIRST_KEY_NOT_INCLUDED_IN_SK" .
  have "set (map fst ?ba) = set (take 2 (keys ?d))"
    by (auto simp: numeral_2_eq_2)
  then have "\<exists>k. 0 < k \<and> k \<le> length (keys ?d) \<and> set (map fst ?ba) = set (take k (keys ?d))"
    by (intro exI [of _ 2]) simp
  from C5_partial_order_validation [OF d ds dkba, THEN conjunct2, THEN conjunct2, THEN conjunct1,
      THEN iffD2, OF this]
  have 3: "assertPartialOrderSKIsCorrect schema2 ?ba = Inr ()" .
  have np: "\<not> (\<exists>k. 0 < k \<and> k \<le> length (keys ?d) \<and> set (map fst ?ac) = set (take k (keys ?d)))"
  proof
    assume "\<exists>k. 0 < k \<and> k \<le> length (keys ?d) \<and> set (map fst ?ac) = set (take k (keys ?d))"
    then obtain k where k: "0 < k" "set (map fst ?ac) = set (take k (keys ?d))" by blast
    show False
    proof (cases "k = 1")
      case True
      with k(2) show False by auto
    next
      case False
      with k(1) have "k = Suc (Suc (k - 2))" by simp
      then obtain k' where k': "k = Suc (Suc k')" ..
      have "''B'' \<in> set (take k (keys ?d))" unfolding k' by simp
      with k(2) have "''B'' \<in> set (map fst ?ac)" by simp
      then show False by simp
    qed
  qed
  have "map fst ?ac \<noteq> [] \<and> set (map fst ?ac) \<subseteq> set (keys ?d) \<and> hd (keys ?d) \<in> set (map fst ?ac)"
    by simp
  then have "map fst ?ac \<noteq> [] \<and> set (map fst ?ac) \<subseteq> set (keys ?d) \<and> hd (keys ?d) \<in> set (map fst ?ac)
      \<and> \<not> (\<exists>k. 0 < k \<and> k \<le> length (keys ?d) \<and> set (map fst ?ac) = set (take k (keys ?d)))"
    using np by (intro conjI) (erule conjunct1, erule conjunct2 [THEN conjunct1],
      erule conjunct2 [THEN conjunct2])
  from C5_partial_order_validation [OF d ds dkac, THEN conjunct2, THEN conjunct2, THEN conjunct2,
      THEN mp, OF this]
  obtain m where m0: "m < length (keys ?d) \<and> keys ?d ! m \<notin> set (map fst ?ac)
      \<and> (\<forall>j<m. keys ?d ! j \<in> set (map fst ?ac))
      \<and> assertPartialOrderSKIsCorrect schema2 ?ac = Inl (KEY_NOT_INCLUDED_IN_SK (keys ?d ! m))"
    by (rule exE)
  then have m: "m < length (keys ?d)" "keys ?d ! m \<notin> set (map fst ?ac)"
      "\<forall>j<m. keys ?d ! j \<in> set (map fst ?ac)"
      "assertPartialOrderSKIsCorrect schema2 ?ac = Inl (KEY_NOT_INCLUDED_IN_SK (keys ?d ! m))"
    by (rule conjunct1, rule conjunct2 [THEN conjunct1], rule conjunct2 [THEN conjunct2, THEN conjunct1],
        rule conjunct2 [THEN conjunct2, THEN conjunct2])
  have "m = 1"
  proof (rule ccontr)
    assume "m \<noteq> 1"
    then consider "m = 0" | "1 < m" by linarith
    then show False
    proof cases
      case 1
      with m(2) show False by simp
    next
      case 2
      from m(3) [rule_format, OF 2] have "keys ?d ! 1 \<in> set (map fst ?ac)" .
      then show False by simp
    qed
  qed
  with m(4) have 4: "assertPartialOrderSKIsCorrect schema2 ?ac = Inl (KEY_NOT_INCLUDED_IN_SK ''B'')"
    by simp
  from 1 2 3 4 show ?thesis by (intro conjI)
qed

end
